theory Spec2Isabelle
  imports Complex_Main "HOL-Library.Word"
begin

section \<open>The engine as the glue code sees it\<close>

text \<open>
  The repository's JavaScript (\<^verbatim>\<open>index.html\<close>, \<^verbatim>\<open>worker.js\<close>) drives a WebAssembly
  engine through the class \<^verbatim>\<open>GifProcessor\<close> of \<^verbatim>\<open>./pkg/gif_caption_wasm.js\<close>.
  The engine's methods are taken as parameters: a record of operations over a processor
  state \<open>'p\<close>, the pixels of a drawing surface \<open>'c\<close> and the caption data \<open>'t\<close> that
  \<^verbatim>\<open>prepare_text_overlay\<close> returns. Every method may throw; a thrown JavaScript value is
  an \<open>exn\<close>, named by what its \<^verbatim>\<open>toString()\<close> yields. Methods that change the
  processor return its new state also when they throw. The getters and
  \<^verbatim>\<open>prepare_text_overlay\<close> are queries, as the operation surface of the specification
  gives them (\<^verbatim>\<open>get_dimensions()\<close>, \<^verbatim>\<open>get_frame_delay()\<close>,
  \<^verbatim>\<open>prepare_caption(text, x, y, size, font) -> CaptionSpec\<close>); a frame delay is a
  number of centiseconds.

  JavaScript numbers are modelled as reals. Where the source divides by a canvas width of
  zero the model's number is not the source's (\<^verbatim>\<open>Infinity\<close> or \<^verbatim>\<open>NaN\<close>); no
  property below depends on the caption's numbers.
\<close>

type_synonym bytes = "8 word list"

datatype exn = Exn string

fun toString :: "exn \<Rightarrow> string" where
  "toString (Exn s) = s"

record caption_args =
  arg_text :: string
  arg_x :: real
  arg_y :: real
  arg_size :: real
  arg_font :: string

text \<open>A canvas element: its size, whether it carries the class \<^verbatim>\<open>hidden\<close>, and its
  pixels (\<open>None\<close>: blank, as after its width or height is set).\<close>

record 'c canvas =
  cv_width :: nat
  cv_height :: nat
  cv_hidden :: bool
  cv_pixels :: "'c option"

record ('p, 'c, 't) engine =
  new_GifProcessor :: "'p"
  process_gif :: "bytes \<Rightarrow> 'p \<Rightarrow> exn option \<times> 'p"
  get_dimensions :: "'p \<Rightarrow> exn + (nat \<times> nat)"
  get_frame_delay :: "'p \<Rightarrow> exn + nat"
  render_current_frame :: "'p \<Rightarrow> 'c canvas \<Rightarrow> exn option \<times> 'c canvas"
  next_frame :: "'p \<Rightarrow> exn option \<times> 'p"
  add_caption :: "'p \<Rightarrow> 'c canvas \<Rightarrow> caption_args \<Rightarrow> exn option \<times> 'c canvas"
  prepare_text_overlay :: "'p \<Rightarrow> caption_args \<Rightarrow> exn + 't"
  process_all_frames_with_text_data :: "'t \<Rightarrow> 'p \<Rightarrow> (exn + bytes) \<times> 'p"

text \<open>The calls made into the wasm module are recorded, in order, beside the state of
  each thread.\<close>

datatype 't call =
    Call_init
  | Call_new
  | Call_process_gif bytes
  | Call_get_dimensions
  | Call_get_frame_delay
  | Call_render_current_frame
  | Call_next_frame
  | Call_add_caption caption_args
  | Call_prepare_text_overlay caption_args
  | Call_process_all_frames 't

text \<open>Statements in sequence, where each may throw: the first throw ends the sequence.\<close>

definition and_then :: "exn option \<times> 's \<Rightarrow> ('s \<Rightarrow> exn option \<times> 's) \<Rightarrow> exn option \<times> 's" where
  "and_then r f = (case r of (Some e, s) \<Rightarrow> (Some e, s) | (None, s) \<Rightarrow> f s)"

section \<open>The messages between the two threads\<close>

text \<open>
  The main thread posts \<^verbatim>\<open>{ type, data: { gifData, textData } }\<close>; the worker posts
  \<^verbatim>\<open>{ type: 'gif_processed', data }\<close> or \<^verbatim>\<open>{ type: 'error', error }\<close>.
  \<^verbatim>\<open>postMessage\<close> hands the receiver a structured clone, which for plain data is an
  equal value: a message is modelled as the value itself.
\<close>

record 't payload =
  gifData :: bytes
  textData :: 't

record 't request =
  req_type :: string
  req_data :: "'t payload"

datatype reply = Gif_processed bytes | Error string

section \<open>worker.js\<close>

text \<open>
  The worker's module state is the variable \<^verbatim>\<open>gifProcessor\<close> (\<open>None\<close> is
  \<^verbatim>\<open>null\<close>). Two traces are kept beside it: the messages posted to the main thread and
  the calls made into the wasm module.
\<close>

record ('p, 't) worker =
  w_gifProcessor :: "'p option"
  w_posted :: "reply list"
  w_calls :: "'t call list"

definition worker0 :: "('p, 't) worker" where
  "worker0 = \<lparr>w_gifProcessor = None, w_posted = [], w_calls = []\<rparr>"

definition w_call :: "'t call \<Rightarrow> ('p, 't) worker \<Rightarrow> ('p, 't) worker" where
  "w_call c w = w\<lparr>w_calls := w_calls w @ [c]\<rparr>"

definition postMessage :: "reply \<Rightarrow> ('p, 't) worker \<Rightarrow> ('p, 't) worker" where
  "postMessage r w = w\<lparr>w_posted := w_posted w @ [r]\<rparr>"

text \<open>
  \<^verbatim>\<open>async function initWasm() { await init(); gifProcessor = new GifProcessor(); }\<close>
  \<^verbatim>\<open>init()\<close> loads and instantiates the wasm module; whether its promise rejects is the
  environment's choice, given as \<open>init_result\<close> (\<open>Some e\<close>: rejected with \<open>e\<close>).
  The first component of the result is the value the function throws, if any.
\<close>

definition initWasm ::
  "('p, 'c, 't) engine \<Rightarrow> exn option \<Rightarrow> ('p, 't) worker \<Rightarrow> exn option \<times> ('p, 't) worker" where
  "initWasm eng init_result w =
     (let w1 = w_call Call_init w in
      case init_result of
        Some e \<Rightarrow> (Some e, w1)
      | None \<Rightarrow> (None, (w_call Call_new w1)\<lparr>w_gifProcessor := Some (new_GifProcessor eng)\<rparr>))"

text \<open>
  The body of \<^verbatim>\<open>case 'process_gif'\<close>: a \<^verbatim>\<open>try\<close> around the two engine calls and the
  success reply, whose \<^verbatim>\<open>catch\<close> posts the error's string. A call on a \<^verbatim>\<open>null\<close>
  processor would be a TypeError, caught like any other.
\<close>

definition process_gif_case ::
  "('p, 'c, 't) engine \<Rightarrow> ('p, 't) worker \<Rightarrow> 't payload \<Rightarrow> ('p, 't) worker" where
  "process_gif_case eng w d =
     (case w_gifProcessor w of
        None \<Rightarrow> postMessage (Error (toString (Exn ''TypeError''))) w
      | Some p \<Rightarrow>
          (let (thrown, p1) = process_gif eng (gifData d) p;
               w1 = (w_call (Call_process_gif (gifData d)) w)\<lparr>w_gifProcessor := Some p1\<rparr>
           in case thrown of
                Some e \<Rightarrow> postMessage (Error (toString e)) w1
              | None \<Rightarrow>
                  (let (res, p2) = process_all_frames_with_text_data eng (textData d) p1;
                       w2 = (w_call (Call_process_all_frames (textData d)) w1)
                              \<lparr>w_gifProcessor := Some p2\<rparr>
                   in case res of
                        Inl e \<Rightarrow> postMessage (Error (toString e)) w2
                      | Inr result \<Rightarrow> postMessage (Gif_processed result) w2)))"

text \<open>
  \<^verbatim>\<open>self.onmessage\<close>: lines 14 to 16 initialise the engine when the processor is still
  \<^verbatim>\<open>null\<close> (outside any \<^verbatim>\<open>try\<close>: a rejected \<^verbatim>\<open>init()\<close> rejects the handler's own
  promise and ends it), then the \<^verbatim>\<open>switch\<close> dispatches on the message type, with a single
  case. The first component of the result is the value the handler's promise rejects with.
  Handler invocations are taken one after the other: the page has at most one request
  outstanding (proved below, of the two threads together), so no second message arrives
  while the first invocation is suspended in \<^verbatim>\<open>await\<close>.
\<close>

definition ensure_init ::
  "('p, 'c, 't) engine \<Rightarrow> exn option \<Rightarrow> ('p, 't) worker \<Rightarrow> exn option \<times> ('p, 't) worker" where
  "ensure_init eng init_result w =
     (if w_gifProcessor w = None then initWasm eng init_result w else (None, w))"

definition dispatch ::
  "('p, 'c, 't) engine \<Rightarrow> ('p, 't) worker \<Rightarrow> 't request \<Rightarrow> ('p, 't) worker" where
  "dispatch eng w m =
     (if req_type m = ''process_gif'' then process_gif_case eng w (req_data m) else w)"

definition onmessage ::
  "('p, 'c, 't) engine \<Rightarrow> exn option \<Rightarrow> ('p, 't) worker \<Rightarrow> 't request
     \<Rightarrow> exn option \<times> ('p, 't) worker" where
  "onmessage eng init_result w m =
     and_then (ensure_init eng init_result w) (\<lambda>w1. (None, dispatch eng w1 m))"

text \<open>
  A run of the worker on messages that arrive one at a time, each after the handler of the
  one before has ended, as the page sends them; each message comes with the outcome
  \<^verbatim>\<open>init()\<close> would have during it. A message that arrived while an earlier handler
  is suspended in \<^verbatim>\<open>await initWasm()\<close> would find \<^verbatim>\<open>gifProcessor\<close> still
  \<^verbatim>\<open>null\<close>; such a sequence is not a run in this sense, and the page sends none.
\<close>

fun worker_run ::
  "('p, 'c, 't) engine \<Rightarrow> ('p, 't) worker \<Rightarrow> (exn option \<times> 't request) list \<Rightarrow> ('p, 't) worker" where
  "worker_run eng w [] = w"
| "worker_run eng w ((ir, m) # ms) = worker_run eng (snd (onmessage eng ir w m)) ms"

section \<open>index.html: the page\<close>

text \<open>
  The state of the page's module script: the variables of \<^verbatim>\<open>main()\<close>, the parts of the
  document it reads and writes, and the browser services it uses (animation frames, alerts,
  the console, the channel to the worker). \<^verbatim>\<open>GifProcessor\<close> objects live in a store;
  \<^verbatim>\<open>gifProcessor\<close> and \<^verbatim>\<open>processedGifProcessor\<close> hold references into it. The
  worker runs in a realm of its own, with its own instance of the wasm module, and shares
  nothing with this store. Left out are the style attributes and classes that the script
  only writes, and the download link, which changes none of the variables.
\<close>

type_synonym ref = nat

record js_file =
  file_name :: string
  file_bytes :: bytes

datatype info = Selected string nat | Failed_to_process

datatype callback = Animate | AnimateProcessed

record ('p, 'c, 't) page =
  store :: "ref \<Rightarrow> 'p option"
  store_next :: ref
  gifProcessor :: ref
  processedGifProcessor :: ref
  currentFile :: "js_file option"
  processedGifData :: "bytes option"
  processedGifUrl :: "bytes option"
  worker :: bool
  animationFrameId :: "nat option"
  processedAnimationFrameId :: "nat option"
  lastFrameTime :: real
  lastProcessedFrameTime :: real
  isProcessing :: bool
  pending :: "('t \<times> js_file) option"
  preview :: "'c canvas"
  processedPreview :: "'c canvas"
  fileInfo :: "info option"
  captionText :: string
  fontFamily :: string
  fontSize :: real
  positionX :: real
  positionY :: real
  processButton_disabled :: bool
  processButton_text :: string
  downloadButton_disabled :: bool
  generatedGif_src :: "bytes option"
  generatedGif_shown :: bool
  alerts :: "string list"
  console_errors :: "string list"
  outbox :: "'t request list"
  raf_next :: nat
  raf_queue :: "(nat \<times> callback) list"
  calls :: "(ref \<times> 't call) list"

text \<open>\<^verbatim>\<open>new GifProcessor()\<close>: a fresh object in the store.\<close>

definition new_object :: "('p, 'c, 't) engine \<Rightarrow> ('p, 'c, 't) page \<Rightarrow> ref \<times> ('p, 'c, 't) page" where
  "new_object eng st =
     (store_next st,
      st\<lparr>store := (store st)(store_next st \<mapsto> new_GifProcessor eng),
         store_next := store_next st + 1,
         calls := calls st @ [(store_next st, Call_new)]\<rparr>)"

definition blank_canvas :: "'c canvas" where
  "blank_canvas = \<lparr>cv_width = 300, cv_height = 150, cv_hidden = True, cv_pixels = None\<rparr>"

text \<open>The state when \<^verbatim>\<open>main()\<close> has run to its end (the markup's initial values, lines
  248 to 254 and 326 to 330); \<open>pending\<close> is the click handler suspended in its
  \<^verbatim>\<open>await\<close>, if any.\<close>

definition page0 :: "('p, 'c, 't) engine \<Rightarrow> ('p, 'c, 't) page" where
  "page0 eng =
     (let st0 = \<lparr>store = (\<lambda>_. None), store_next = 0,
                 gifProcessor = 0, processedGifProcessor = 0,
                 currentFile = None, processedGifData = None, processedGifUrl = None,
                 worker = False, animationFrameId = None, processedAnimationFrameId = None,
                 lastFrameTime = 0, lastProcessedFrameTime = 0, isProcessing = False,
                 pending = None, preview = blank_canvas, processedPreview = blank_canvas,
                 fileInfo = None, captionText = [], fontFamily = ''Arial'', fontSize = 24,
                 positionX = 50, positionY = 50,
                 processButton_disabled = False, processButton_text = ''Process GIF'',
                 downloadButton_disabled = True, generatedGif_src = None,
                 generatedGif_shown = False, alerts = [], console_errors = [], outbox = [],
                 raf_next = 1, raf_queue = [], calls = []\<rparr>;
          (a, st1) = new_object eng st0;
          (b, st2) = new_object eng (st1\<lparr>gifProcessor := a\<rparr>)
      in st2\<lparr>processedGifProcessor := b\<rparr>)"

subsection \<open>Calls on a processor object\<close>

definition null_deref :: exn where
  "null_deref = Exn ''TypeError''"

definition log_call :: "ref \<Rightarrow> 't call \<Rightarrow> ('p, 'c, 't) page \<Rightarrow> ('p, 'c, 't) page" where
  "log_call a c st = st\<lparr>calls := calls st @ [(a, c)]\<rparr>"

text \<open>A method that may change the object.\<close>

definition call_method ::
  "ref \<Rightarrow> 't call \<Rightarrow> ('p \<Rightarrow> exn option \<times> 'p) \<Rightarrow> ('p, 'c, 't) page
     \<Rightarrow> exn option \<times> ('p, 'c, 't) page" where
  "call_method a c f st =
     (case store st a of
        None \<Rightarrow> (Some null_deref, st)
      | Some p \<Rightarrow>
          (let (thrown, p1) = f p
           in (thrown, (log_call a c st)\<lparr>store := (store st)(a \<mapsto> p1)\<rparr>)))"

text \<open>A query.\<close>

definition call_query ::
  "ref \<Rightarrow> 't call \<Rightarrow> ('p \<Rightarrow> exn + 'r) \<Rightarrow> ('p, 'c, 't) page \<Rightarrow> (exn + 'r) \<times> ('p, 'c, 't) page" where
  "call_query a c f st =
     (case store st a of
        None \<Rightarrow> (Inl null_deref, st)
      | Some p \<Rightarrow> (f p, log_call a c st))"

subsection \<open>Animation frames\<close>

definition requestAnimationFrame ::
  "callback \<Rightarrow> ('p, 'c, 't) page \<Rightarrow> nat \<times> ('p, 'c, 't) page" where
  "requestAnimationFrame cb st =
     (raf_next st, st\<lparr>raf_queue := raf_queue st @ [(raf_next st, cb)], raf_next := raf_next st + 1\<rparr>)"

definition cancelAnimationFrame :: "nat \<Rightarrow> ('p, 'c, 't) page \<Rightarrow> ('p, 'c, 't) page" where
  "cancelAnimationFrame i st = st\<lparr>raf_queue := filter (\<lambda>(j, cb). j \<noteq> i) (raf_queue st)\<rparr>"

text \<open>\<^verbatim>\<open>if (animationFrameId)\<close>: neither \<^verbatim>\<open>null\<close> nor zero.\<close>

fun truthy :: "nat option \<Rightarrow> bool" where
  "truthy None = False"
| "truthy (Some i) = (i \<noteq> 0)"

definition cancel_if_set :: "nat option \<Rightarrow> ('p, 'c, 't) page \<Rightarrow> ('p, 'c, 't) page" where
  "cancel_if_set h st = (if truthy h then cancelAnimationFrame (the h) st else st)"

definition stopAnimation :: "('p, 'c, 't) page \<Rightarrow> ('p, 'c, 't) page" where
  "stopAnimation st =
     (let st1 = (if truthy (animationFrameId st)
                 then (cancelAnimationFrame (the (animationFrameId st)) st)\<lparr>animationFrameId := None\<rparr>
                 else st);
          st2 = (if truthy (processedAnimationFrameId st1)
                 then (cancelAnimationFrame (the (processedAnimationFrameId st1)) st1)
                        \<lparr>processedAnimationFrameId := None\<rparr>
                 else st1)
      in st2\<lparr>lastFrameTime := 0, lastProcessedFrameTime := 0\<rparr>)"

text \<open>\<^verbatim>\<open>animationFrameId = requestAnimationFrame(animate)\<close> and its twin for
  \<^verbatim>\<open>animateProcessed\<close>.\<close>

fun schedule :: "callback \<Rightarrow> ('p, 'c, 't) page \<Rightarrow> ('p, 'c, 't) page" where
  "schedule Animate st =
     (let (i, st1) = requestAnimationFrame Animate st in st1\<lparr>animationFrameId := Some i\<rparr>)"
| "schedule AnimateProcessed st =
     (let (i, st1) = requestAnimationFrame AnimateProcessed st
      in st1\<lparr>processedAnimationFrameId := Some i\<rparr>)"

definition startAnimation :: "('p, 'c, 't) page \<Rightarrow> ('p, 'c, 't) page" where
  "startAnimation st =
     (if isProcessing st then st
      else
        (let st1 = cancel_if_set (animationFrameId st) st;
             st2 = cancel_if_set (processedAnimationFrameId st1) st1
         in schedule AnimateProcessed (schedule Animate st2)))"

subsection \<open>The preview\<close>

text \<open>\<^verbatim>\<open>updatePreview\<close>: \<^verbatim>\<open>get_dimensions()\<close> is outside the \<^verbatim>\<open>try\<close>, the drawing of
  the caption inside it.\<close>

definition updatePreview ::
  "('p, 'c, 't) engine \<Rightarrow> ('p, 'c, 't) page \<Rightarrow> exn option \<times> ('p, 'c, 't) page" where
  "updatePreview eng st =
     (if captionText st = [] then (None, st)
      else
        (case call_query (gifProcessor st) Call_get_dimensions (get_dimensions eng) st of
           (Inl e, st1) \<Rightarrow> (Some e, st1)
         | (Inr (w, h), st1) \<Rightarrow>
             (let scale = real w / real (cv_width (preview st1));
                  args = \<lparr>arg_text = captionText st1,
                          arg_x = (positionX st1 / 100) * real (cv_width (preview st1)),
                          arg_y = (positionY st1 / 100) * real (cv_height (preview st1)),
                          arg_size = fontSize st1 / scale,
                          arg_font = fontFamily st1\<rparr>
              in case store st1 (gifProcessor st1) of
                   None \<Rightarrow> (None, st1\<lparr>console_errors := console_errors st1 @ [toString null_deref]\<rparr>)
                 | Some p \<Rightarrow>
                     (let (thrown, cv) = add_caption eng p (preview st1) args;
                          st2 = (log_call (gifProcessor st1) (Call_add_caption args) st1)\<lparr>preview := cv\<rparr>
                      in case thrown of
                           None \<Rightarrow> (None, st2)
                         | Some e \<Rightarrow>
                             (None, st2\<lparr>console_errors := console_errors st2 @ [toString e]\<rparr>)))))"

definition render_preview ::
  "('p, 'c, 't) engine \<Rightarrow> ('p, 'c, 't) page \<Rightarrow> exn option \<times> ('p, 'c, 't) page" where
  "render_preview eng st =
     (case store st (gifProcessor st) of
        None \<Rightarrow> (Some null_deref, st)
      | Some p \<Rightarrow>
          (let (thrown, cv) = render_current_frame eng p (preview st)
           in (thrown, (log_call (gifProcessor st) Call_render_current_frame st)\<lparr>preview := cv\<rparr>)))"

definition render_processed ::
  "('p, 'c, 't) engine \<Rightarrow> ('p, 'c, 't) page \<Rightarrow> exn option \<times> ('p, 'c, 't) page" where
  "render_processed eng st =
     (case store st (processedGifProcessor st) of
        None \<Rightarrow> (Some null_deref, st)
      | Some p \<Rightarrow>
          (let (thrown, cv) = render_current_frame eng p (processedPreview st)
           in (thrown, (log_call (processedGifProcessor st) Call_render_current_frame st)
                         \<lparr>processedPreview := cv\<rparr>)))"

text \<open>
  The two animation callbacks, lines 355 to 383. \<^verbatim>\<open>!lastFrameTime\<close> holds of zero. A
  throw ends the callback before it requests its next frame. \<open>advance_preview\<close> and
  \<open>advance_processed\<close> are the bodies of the two \<^verbatim>\<open>if (elapsed > frameDelay ...)\<close>.
\<close>

definition advance_preview ::
  "('p, 'c, 't) engine \<Rightarrow> real \<Rightarrow> ('p, 'c, 't) page \<Rightarrow> exn option \<times> ('p, 'c, 't) page" where
  "advance_preview eng timestamp st =
     and_then (render_preview eng st) (\<lambda>st1.
     and_then (updatePreview eng st1) (\<lambda>st2.
     and_then (call_method (gifProcessor st2) Call_next_frame (next_frame eng) st2) (\<lambda>st3.
       (None, st3\<lparr>lastFrameTime := timestamp\<rparr>))))"

definition animate ::
  "('p, 'c, 't) engine \<Rightarrow> real \<Rightarrow> ('p, 'c, 't) page \<Rightarrow> exn option \<times> ('p, 'c, 't) page" where
  "animate eng timestamp st =
     (let st1 = (if lastFrameTime st = 0 then st\<lparr>lastFrameTime := timestamp\<rparr> else st);
          elapsed = timestamp - lastFrameTime st1
      in case call_query (gifProcessor st1) Call_get_frame_delay (get_frame_delay eng) st1 of
           (Inl e, st2) \<Rightarrow> (Some e, st2)
         | (Inr d, st2) \<Rightarrow>
             (let frameDelay = real d * 10
              in and_then
                   (if elapsed > frameDelay then advance_preview eng timestamp st2 else (None, st2))
                   (\<lambda>st3. (None, schedule Animate st3))))"

definition advance_processed ::
  "('p, 'c, 't) engine \<Rightarrow> real \<Rightarrow> ('p, 'c, 't) page \<Rightarrow> exn option \<times> ('p, 'c, 't) page" where
  "advance_processed eng timestamp st =
     and_then (render_processed eng st) (\<lambda>st1.
     and_then (call_method (processedGifProcessor st1) Call_next_frame (next_frame eng) st1) (\<lambda>st2.
       (None, st2\<lparr>lastProcessedFrameTime := timestamp\<rparr>)))"

definition animateProcessed ::
  "('p, 'c, 't) engine \<Rightarrow> real \<Rightarrow> ('p, 'c, 't) page \<Rightarrow> exn option \<times> ('p, 'c, 't) page" where
  "animateProcessed eng timestamp st =
     (let st1 = (if lastProcessedFrameTime st = 0
                 then st\<lparr>lastProcessedFrameTime := timestamp\<rparr> else st);
          elapsed = timestamp - lastProcessedFrameTime st1
      in case call_query (processedGifProcessor st1) Call_get_frame_delay (get_frame_delay eng) st1 of
           (Inl e, st2) \<Rightarrow> (Some e, st2)
         | (Inr d, st2) \<Rightarrow>
             (let frameDelay = real d * 10
              in and_then
                   (if elapsed > frameDelay \<and> processedGifData st2 \<noteq> None
                    then advance_processed eng timestamp st2 else (None, st2))
                   (\<lambda>st3. (None, schedule AnimateProcessed st3))))"

text \<open>The browser runs a requested callback once, with the frame's timestamp, unless it
  was cancelled.\<close>

definition run_frame ::
  "('p, 'c, 't) engine \<Rightarrow> nat \<Rightarrow> real \<Rightarrow> ('p, 'c, 't) page \<Rightarrow> exn option \<times> ('p, 'c, 't) page" where
  "run_frame eng i timestamp st =
     (case map_of (raf_queue st) i of
        None \<Rightarrow> (None, st)
      | Some Animate \<Rightarrow> animate eng timestamp (cancelAnimationFrame i st)
      | Some AnimateProcessed \<Rightarrow> animateProcessed eng timestamp (cancelAnimationFrame i st))"

subsection \<open>Loading a file\<close>

text \<open>
  \<^verbatim>\<open>handleFile\<close> up to its \<^verbatim>\<open>await file.arrayBuffer()\<close>, and from there on, with the
  bytes read. When the read fails nothing more happens: the rejection is not handled.
\<close>

definition handleFile_begin :: "js_file \<Rightarrow> ('p, 'c, 't) page \<Rightarrow> ('p, 'c, 't) page" where
  "handleFile_begin f st =
     st\<lparr>currentFile := Some f, fileInfo := Some (Selected (file_name f) (length (file_bytes f)))\<rparr>"

definition handleFile_catch :: "exn \<Rightarrow> ('p, 'c, 't) page \<Rightarrow> ('p, 'c, 't) page" where
  "handleFile_catch e st =
     st\<lparr>console_errors := console_errors st @ [toString e], fileInfo := Some Failed_to_process\<rparr>"

definition handleFile_loaded ::
  "('p, 'c, 't) engine \<Rightarrow> bytes \<Rightarrow> ('p, 'c, 't) page \<Rightarrow> ('p, 'c, 't) page" where
  "handleFile_loaded eng uint8Array st =
     (case call_method (gifProcessor st) (Call_process_gif uint8Array)
             (process_gif eng uint8Array) st of
        (Some e, st1) \<Rightarrow> handleFile_catch e st1
      | (None, st1) \<Rightarrow>
          (case call_query (gifProcessor st1) Call_get_dimensions (get_dimensions eng) st1 of
             (Inl e, st2) \<Rightarrow> handleFile_catch e st2
           | (Inr (w, h), st2) \<Rightarrow>
               startAnimation
                 (st2\<lparr>preview := \<lparr>cv_width = w, cv_height = h, cv_hidden = False, cv_pixels = None\<rparr>,
                      processedPreview :=
                        \<lparr>cv_width = w, cv_height = h, cv_hidden = False, cv_pixels = None\<rparr>\<rparr>)))"

subsection \<open>The export\<close>

definition initWorker :: "('p, 'c, 't) page \<Rightarrow> ('p, 'c, 't) page" where
  "initWorker st = (if \<not> worker st then st\<lparr>worker := True\<rparr> else st)"

text \<open>\<^verbatim>\<open>worker.onmessage\<close>, lines 420 to 462. In the first branch
  \<^verbatim>\<open>processedGifProcessor.process_gif(data)\<close> is outside any \<^verbatim>\<open>try\<close>.\<close>

definition page_onmessage ::
  "('p, 'c, 't) engine \<Rightarrow> reply \<Rightarrow> ('p, 'c, 't) page \<Rightarrow> exn option \<times> ('p, 'c, 't) page" where
  "page_onmessage eng r st =
     (case r of
        Gif_processed data \<Rightarrow>
          and_then
            (call_method (processedGifProcessor st) (Call_process_gif data) (process_gif eng data)
               (st\<lparr>processedGifData := Some data\<rparr>))
            (\<lambda>st1. (None, startAnimation
                      (st1\<lparr>processedGifUrl := Some data,
                           generatedGif_src := Some data,
                           generatedGif_shown := True,
                           downloadButton_disabled := False,
                           processButton_disabled := False,
                           processButton_text := ''Process GIF'',
                           isProcessing := False\<rparr>)))
      | Error error \<Rightarrow>
          (None, startAnimation
             (st\<lparr>console_errors := console_errors st @ [error],
                 alerts := alerts st @ [''Error processing GIF. Please try again.''],
                 processButton_disabled := False,
                 processButton_text := ''Process GIF'',
                 isProcessing := False\<rparr>)))"

text \<open>\<^verbatim>\<open>parseInt\<close> of a number written in decimal: its integer part.\<close>

definition parseInt :: "real \<Rightarrow> real" where
  "parseInt x = (if x < 0 then of_int \<lceil>x\<rceil> else of_int \<lfloor>x\<rfloor>)"

text \<open>
  The click handler of the process button, lines 466 to 511: up to its
  \<^verbatim>\<open>await currentFile.arrayBuffer()\<close>, and from there on. The \<^verbatim>\<open>catch\<close> serves both parts.
\<close>

definition click_catch :: "exn \<Rightarrow> ('p, 'c, 't) page \<Rightarrow> ('p, 'c, 't) page" where
  "click_catch e st =
     startAnimation
       (st\<lparr>console_errors := console_errors st @ [toString e],
           alerts := alerts st @ [''Error processing GIF. Please try again.''],
           isProcessing := False\<rparr>)"

text \<open>The arguments of \<^verbatim>\<open>prepare_text_overlay\<close>, read from the inputs (lines 474 to
  478).\<close>

definition export_args :: "('p, 'c, 't) page \<Rightarrow> caption_args" where
  "export_args st =
     \<lparr>arg_text = captionText st,
      arg_x = (parseInt (positionX st) / 100) * real (cv_width (preview st)),
      arg_y = (parseInt (positionY st) / 100) * real (cv_height (preview st)),
      arg_size = parseInt (fontSize st),
      arg_font = fontFamily st\<rparr>"

definition click_begin :: "('p, 'c, 't) engine \<Rightarrow> ('p, 'c, 't) page \<Rightarrow> ('p, 'c, 't) page" where
  "click_begin eng st =
     (case currentFile st of
        None \<Rightarrow> st
      | Some f \<Rightarrow>
          if isProcessing st then st
          else
            (let st1 = st\<lparr>isProcessing := True, processButton_disabled := True,
                          processButton_text := ''Processing...''\<rparr>;
                 args = export_args st1;
                 st2 = initWorker st1
             in case call_query (gifProcessor st2) (Call_prepare_text_overlay args)
                       (\<lambda>p. prepare_text_overlay eng p args) st2 of
                  (Inl e, st3) \<Rightarrow> click_catch e st3
                | (Inr textOverlay, st3) \<Rightarrow> st3\<lparr>pending := Some (textOverlay, f)\<rparr>))"

text \<open>The message of lines 497 to 503. \<^verbatim>\<open>worker.postMessage\<close> on a variable
  \<^verbatim>\<open>worker\<close> still \<^verbatim>\<open>null\<close> would be a TypeError, caught like the failure of the
  read.\<close>

definition export_request :: "js_file \<Rightarrow> 't \<Rightarrow> 't request" where
  "export_request f textOverlay =
     \<lparr>req_type = ''process_gif'',
      req_data = \<lparr>gifData = file_bytes f, textData = textOverlay\<rparr>\<rparr>"

definition click_finish :: "exn option \<Rightarrow> ('p, 'c, 't) page \<Rightarrow> ('p, 'c, 't) page" where
  "click_finish read_result st =
     (case pending st of
        None \<Rightarrow> st
      | Some (textOverlay, f) \<Rightarrow>
          (case read_result of
             Some e \<Rightarrow> click_catch e (st\<lparr>pending := None\<rparr>)
           | None \<Rightarrow>
               if worker st
               then st\<lparr>pending := None, outbox := outbox st @ [export_request f textOverlay]\<rparr>
               else click_catch null_deref (st\<lparr>pending := None\<rparr>)))"

subsection \<open>The caption inputs\<close>

datatype input = CaptionText string | FontFamily string | FontSize real
  | PositionX real | PositionY real

fun set_input :: "input \<Rightarrow> ('p, 'c, 't) page \<Rightarrow> ('p, 'c, 't) page" where
  "set_input (CaptionText s) st = st\<lparr>captionText := s\<rparr>"
| "set_input (FontFamily s) st = st\<lparr>fontFamily := s\<rparr>"
| "set_input (FontSize x) st = st\<lparr>fontSize := x\<rparr>"
| "set_input (PositionX x) st = st\<lparr>positionX := x\<rparr>"
| "set_input (PositionY x) st = st\<lparr>positionY := x\<rparr>"

text \<open>A change of an input runs \<^verbatim>\<open>updatePreview\<close> and the listener of lines 532 to 545,
  each an event listener of its own.\<close>

definition on_input :: "('p, 'c, 't) engine \<Rightarrow> input \<Rightarrow> ('p, 'c, 't) page \<Rightarrow> ('p, 'c, 't) page" where
  "on_input eng v st =
     (let st1 = snd (updatePreview eng (set_input v st))
      in st1\<lparr>generatedGif_shown := False, downloadButton_disabled := True,
             processedGifUrl := None\<rparr>)"

section \<open>The two threads together\<close>

text \<open>
  The page, the worker, and how many messages of each channel have been delivered; the
  channels deliver in order. The events are the user's actions (a file chosen, the window
  resized, an input changed, the process button clicked), the browser's callbacks (the
  bytes of a file read for \<^verbatim>\<open>handleFile\<close>, an animation frame with its timestamp, the
  read of the click handler finished or failed) and the two deliveries, the one to the
  worker with the outcome \<^verbatim>\<open>init()\<close> would have during it. An error that a handler
  throws goes to the console and is dropped.
\<close>

record ('p, 'c, 't) system =
  sys_page :: "('p, 'c, 't) page"
  sys_worker :: "('p, 't) worker"
  to_worker :: nat
  to_page :: nat

datatype event =
    Choose_file js_file
  | File_read bytes
  | Resize
  | Change input
  | Frame nat real
  | Click
  | Click_read "exn option"
  | Deliver_to_worker "exn option"
  | Deliver_to_page

definition system0 :: "('p, 'c, 't) engine \<Rightarrow> ('p, 'c, 't) system" where
  "system0 eng = \<lparr>sys_page = page0 eng, sys_worker = worker0, to_worker = 0, to_page = 0\<rparr>"

fun step :: "('p, 'c, 't) engine \<Rightarrow> event \<Rightarrow> ('p, 'c, 't) system \<Rightarrow> ('p, 'c, 't) system" where
  "step eng (Choose_file f) s = s\<lparr>sys_page := handleFile_begin f (sys_page s)\<rparr>"
| "step eng (File_read b) s = s\<lparr>sys_page := handleFile_loaded eng b (sys_page s)\<rparr>"
| "step eng Resize s =
     (case currentFile (sys_page s) of
        None \<Rightarrow> s
      | Some f \<Rightarrow> s\<lparr>sys_page := handleFile_begin f (sys_page s)\<rparr>)"
| "step eng (Change v) s = s\<lparr>sys_page := on_input eng v (sys_page s)\<rparr>"
| "step eng (Frame i ts) s = s\<lparr>sys_page := snd (run_frame eng i ts (sys_page s))\<rparr>"
| "step eng Click s = s\<lparr>sys_page := click_begin eng (sys_page s)\<rparr>"
| "step eng (Click_read r) s = s\<lparr>sys_page := click_finish r (sys_page s)\<rparr>"
| "step eng (Deliver_to_worker ir) s =
     (if to_worker s < length (outbox (sys_page s))
      then s\<lparr>sys_worker := snd (onmessage eng ir (sys_worker s) (outbox (sys_page s) ! to_worker s)),
             to_worker := to_worker s + 1\<rparr>
      else s)"
| "step eng Deliver_to_page s =
     (if to_page s < length (w_posted (sys_worker s))
      then s\<lparr>sys_page := snd (page_onmessage eng (w_posted (sys_worker s) ! to_page s) (sys_page s)),
             to_page := to_page s + 1\<rparr>
      else s)"

fun run :: "('p, 'c, 't) engine \<Rightarrow> event list \<Rightarrow> ('p, 'c, 't) system \<Rightarrow> ('p, 'c, 't) system" where
  "run eng [] s = s"
| "run eng (ev # evs) s = run eng evs (step eng ev s)"

text \<open>The requests the page has sent and has not yet had a reply to.\<close>

definition in_flight :: "('p, 'c, 't) system \<Rightarrow> nat" where
  "in_flight s = length (outbox (sys_page s)) - to_page s"

section \<open>Notions used in the statements\<close>

subsection \<open>Calls and replies\<close>

text \<open>The batch pipeline is the method \<^verbatim>\<open>process_all_frames_with_text_data\<close>.\<close>

fun is_batch :: "'t call \<Rightarrow> bool" where
  "is_batch (Call_process_all_frames t) = True"
| "is_batch _ = False"

fun batch_arg :: "'t call \<Rightarrow> 't list" where
  "batch_arg (Call_process_all_frames t) = [t]"
| "batch_arg _ = []"

text \<open>The caption data of the batch calls in a trace, in order.\<close>

definition batch_args :: "'t call list \<Rightarrow> 't list" where
  "batch_args cs = concat (map batch_arg cs)"

definition batch_calls :: "('p, 'c, 't) page \<Rightarrow> (ref \<times> 't call) list" where
  "batch_calls st = filter (\<lambda>(a, c). is_batch c) (calls st)"

text \<open>The calls a handler added to the page's trace.\<close>

definition new_calls :: "('p, 'c, 't) page \<Rightarrow> ('p, 'c, 't) page \<Rightarrow> (ref \<times> 't call) list" where
  "new_calls st st' = drop (length (calls st)) (calls st')"

definition constructions :: "('p, 't) worker \<Rightarrow> nat" where
  "constructions w = count_list (w_calls w) Call_new"

definition init_calls :: "('p, 't) worker \<Rightarrow> nat" where
  "init_calls w = count_list (w_calls w) Call_init"

text \<open>
  The traces of a worker that initialises its engine lazily and once: no call yet; one
  call of \<^verbatim>\<open>init()\<close> and nothing after it; or \<^verbatim>\<open>init()\<close>, the constructor, and
  then calls among which neither occurs again, so that every call of a method of the
  processor comes after the one construction.
\<close>

definition lazy_trace :: "'t call list \<Rightarrow> bool" where
  "lazy_trace cs \<longleftrightarrow>
     cs = [] \<or> cs = [Call_init] \<or>
     (take 2 cs = [Call_init, Call_new] \<and>
      Call_init \<notin> set (drop 2 cs) \<and> Call_new \<notin> set (drop 2 cs))"

text \<open>What the \<^verbatim>\<open>try\<close>/\<^verbatim>\<open>catch\<close> of the worker answers to a payload, on processor
  \<open>p\<close>.\<close>

definition export_reply :: "('p, 'c, 't) engine \<Rightarrow> 'p \<Rightarrow> 't payload \<Rightarrow> reply" where
  "export_reply eng p d =
     (case process_gif eng (gifData d) p of
        (Some e, p1) \<Rightarrow> Error (toString e)
      | (None, p1) \<Rightarrow>
          (case fst (process_all_frames_with_text_data eng (textData d) p1) of
             Inl e \<Rightarrow> Error (toString e)
           | Inr result \<Rightarrow> Gif_processed result))"

subsection \<open>The page\<close>

text \<open>
  \<open>quiet st st'\<close>: from \<open>st\<close> to \<open>st'\<close> nothing of the export changed (the outbox, the
  flag \<^verbatim>\<open>isProcessing\<close>, the suspended click handler), the two references and the set
  of objects are the same, and no batch call was made.
\<close>

definition quiet :: "('p, 'c, 't) page \<Rightarrow> ('p, 'c, 't) page \<Rightarrow> bool" where
  "quiet st st' \<longleftrightarrow>
     outbox st' = outbox st \<and> isProcessing st' = isProcessing st \<and> pending st' = pending st \<and>
     gifProcessor st' = gifProcessor st \<and> processedGifProcessor st' = processedGifProcessor st \<and>
     dom (store st') = dom (store st) \<and>
     filter (\<lambda>(a, c). is_batch c) (calls st') = filter (\<lambda>(a, c). is_batch c) (calls st)"

definition refs_ok :: "('p, 'c, 't) page \<Rightarrow> bool" where
  "refs_ok st \<longleftrightarrow>
     gifProcessor st \<noteq> processedGifProcessor st \<and>
     store st (gifProcessor st) \<noteq> None \<and> store st (processedGifProcessor st) \<noteq> None"

text \<open>The state of a callback once it has read the frame delay.\<close>

definition after_query :: "('p, 'c, 't) page \<Rightarrow> real \<Rightarrow> ('p, 'c, 't) page" where
  "after_query st ts =
     log_call (gifProcessor st) Call_get_frame_delay
       (if lastFrameTime st = 0 then st\<lparr>lastFrameTime := ts\<rparr> else st)"

definition after_query_processed :: "('p, 'c, 't) page \<Rightarrow> real \<Rightarrow> ('p, 'c, 't) page" where
  "after_query_processed st ts =
     log_call (processedGifProcessor st) Call_get_frame_delay
       (if lastProcessedFrameTime st = 0 then st\<lparr>lastProcessedFrameTime := ts\<rparr> else st)"

text \<open>
  The time from \<open>since\<close>, the timestamp of the previous advance, to \<open>timestamp\<close> exceeds
  the delay of the current frame of the processor at \<open>a\<close>: \<^verbatim>\<open>get_frame_delay()\<close>
  centiseconds, times ten for milliseconds.
\<close>

definition delay_elapsed ::
  "('p, 'c, 't) engine \<Rightarrow> ref \<Rightarrow> real \<Rightarrow> real \<Rightarrow> ('p, 'c, 't) page \<Rightarrow> bool" where
  "delay_elapsed eng a since timestamp st =
     (case store st a of
        None \<Rightarrow> False
      | Some p \<Rightarrow>
          (case get_frame_delay eng p of
             Inl e \<Rightarrow> False
           | Inr d \<Rightarrow> since \<noteq> 0 \<and> timestamp - since > real d * 10))"

text \<open>The result of a handler, with the flag \<^verbatim>\<open>isProcessing\<close> set to \<open>b\<close>.\<close>

definition exporting ::
  "bool \<Rightarrow> exn option \<times> ('p, 'c, 't) page \<Rightarrow> exn option \<times> ('p, 'c, 't) page" where
  "exporting b r = (fst r, (snd r)\<lparr>isProcessing := b\<rparr>)"

subsection \<open>The system\<close>

text \<open>The events of a batch export: the click, the read of the file, the two deliveries.\<close>

fun is_export :: "event \<Rightarrow> bool" where
  "is_export Click = True"
| "is_export (Click_read r) = True"
| "is_export (Deliver_to_worker ir) = True"
| "is_export Deliver_to_page = True"
| "is_export _ = False"

definition channels_ok :: "('p, 'c, 't) system \<Rightarrow> bool" where
  "channels_ok s \<longleftrightarrow>
     to_page s \<le> length (w_posted (sys_worker s)) \<and>
     length (w_posted (sys_worker s)) \<le> to_worker s \<and>
     to_worker s \<le> length (outbox (sys_page s)) \<and>
     length (outbox (sys_page s)) \<le> to_page s + 1 \<and>
     (length (outbox (sys_page s)) = to_page s + 1 \<longrightarrow>
        isProcessing (sys_page s) \<and> pending (sys_page s) = None) \<and>
     (pending (sys_page s) \<noteq> None \<longrightarrow> isProcessing (sys_page s))"

text \<open>The caption data of the requests delivered to the worker so far.\<close>

definition requested :: "('p, 'c, 't) system \<Rightarrow> 't list" where
  "requested s = map (\<lambda>m. textData (req_data m)) (take (to_worker s) (outbox (sys_page s)))"

definition batch_ok :: "('p, 'c, 't) system \<Rightarrow> bool" where
  "batch_ok s \<longleftrightarrow>
     batch_calls (sys_page s) = [] \<and>
     set (batch_args (w_calls (sys_worker s))) \<subseteq> set (requested s) \<and>
     to_worker s \<le> length (outbox (sys_page s))"

text \<open>
  The worker's state against the number of messages delivered to it: before the first
  delivery it has called nothing; after it, either it holds a processor, made by the one
  \<^verbatim>\<open>init()\<close> and the one construction that open its trace, or the one \<^verbatim>\<open>init()\<close>
  of the first message failed, and it holds none and has posted nothing.
\<close>

definition init_ok :: "('p, 'c, 't) system \<Rightarrow> bool" where
  "init_ok s \<longleftrightarrow>
     (if to_worker s = 0
      then w_calls (sys_worker s) = [] \<and> w_gifProcessor (sys_worker s) = None
      else if w_gifProcessor (sys_worker s) = None
      then w_calls (sys_worker s) = [Call_init] \<and> w_posted (sys_worker s) = []
      else take 2 (w_calls (sys_worker s)) = [Call_init, Call_new] \<and>
           Call_init \<notin> set (drop 2 (w_calls (sys_worker s))) \<and>
           Call_new \<notin> set (drop 2 (w_calls (sys_worker s))))"

section \<open>The engine of the specification\<close>

text \<open>
  Modelled from the spec: the Rust crate behind \<^verbatim>\<open>./pkg/gif_caption_wasm.js\<close> is not
  among the sources, so what \<^verbatim>\<open>process_gif\<close> and
  \<^verbatim>\<open>process_all_frames_with_text_data\<close> do to a processor is taken from sections 4.7, 6
  and 7 of the specification. An engine instance is \<open>Idle\<close> (no document) or
  \<open>Ready\<close> with a document and the index of the current frame; a load always resets to
  \<open>Ready\<close> at index 0, or to \<open>Idle\<close> when decoding fails; \<^verbatim>\<open>next_frame\<close> advances
  the index modulo the frame count. The pure components (decoder, compositor, overlay,
  quantizer and encoder) are parameters. The specification does not say what a call on an
  \<open>Idle\<close> instance does; here it throws.
\<close>

datatype 'd cursor = Idle | Ready 'd nat

record ('d, 'c, 't) core =
  decode :: "bytes \<Rightarrow> exn + 'd"
  doc_dimensions :: "'d \<Rightarrow> nat \<times> nat"
  frame_count :: "'d \<Rightarrow> nat"
  frame_delay :: "'d \<Rightarrow> nat \<Rightarrow> nat"
  composite :: "'d \<Rightarrow> nat \<Rightarrow> 'c canvas \<Rightarrow> exn option \<times> 'c canvas"
  overlay :: "'c canvas \<Rightarrow> caption_args \<Rightarrow> 'c canvas"
  prepare_caption :: "caption_args \<Rightarrow> 't"
  export_document :: "'d \<Rightarrow> 't \<Rightarrow> exn + bytes"

definition no_document :: exn where
  "no_document = Exn ''no document''"

definition spec_engine :: "('d, 'c, 't) core \<Rightarrow> ('d cursor, 'c, 't) engine" where
  "spec_engine core = \<lparr>
     new_GifProcessor = Idle,
     process_gif =
       (\<lambda>b p. case decode core b of Inl e \<Rightarrow> (Some e, Idle) | Inr d \<Rightarrow> (None, Ready d 0)),
     get_dimensions =
       (\<lambda>p. case p of Idle \<Rightarrow> Inl no_document | Ready d k \<Rightarrow> Inr (doc_dimensions core d)),
     get_frame_delay =
       (\<lambda>p. case p of Idle \<Rightarrow> Inl no_document | Ready d k \<Rightarrow> Inr (frame_delay core d k)),
     render_current_frame =
       (\<lambda>p cv. case p of Idle \<Rightarrow> (Some no_document, cv) | Ready d k \<Rightarrow> composite core d k cv),
     next_frame =
       (\<lambda>p. case p of Idle \<Rightarrow> (Some no_document, Idle)
                     | Ready d k \<Rightarrow> (None, Ready d ((k + 1) mod frame_count core d))),
     add_caption = (\<lambda>p cv a. (None, overlay core cv a)),
     prepare_text_overlay = (\<lambda>p a. Inr (prepare_caption core a)),
     process_all_frames_with_text_data =
       (\<lambda>t p. case p of Idle \<Rightarrow> (Inl no_document, Idle)
                       | Ready d k \<Rightarrow> (export_document core d t, Ready d k))
   \<rparr>"

text \<open>
  Modelled from the spec: the single operation of its interface,
  \<^verbatim>\<open>export_with_caption(bytes, CaptionSpec) -> Result<bytes, ProcessingError>\<close>, which is
  the data flow of its section 2, from the bytes through the decoder to the captioned bytes.
\<close>

definition export_with_caption :: "('d, 'c, 't) core \<Rightarrow> bytes \<Rightarrow> 't \<Rightarrow> exn + bytes" where
  "export_with_caption core b t =
     (case decode core b of Inl e \<Rightarrow> Inl e | Inr d \<Rightarrow> export_document core d t)"

text \<open>A typed result as the message that carries it.\<close>

fun relay :: "exn + bytes \<Rightarrow> reply" where
  "relay (Inl e) = Error (toString e)"
| "relay (Inr b) = Gif_processed b"

definition export_of :: "('d, 'c, 't) core \<Rightarrow> 't request \<Rightarrow> reply" where
  "export_of core m = relay (export_with_caption core (gifData (req_data m)) (textData (req_data m)))"

section \<open>The LZW codec of the specification\<close>

text \<open>
  Modelled from the spec: the LZW codec is not among the sources (the page and the worker
  reach it only through \<^verbatim>\<open>process_gif\<close> and \<^verbatim>\<open>process_all_frames_with_text_data\<close>),
  so it is taken from section 4.2 of the specification. With colour depth \<open>d\<close> the
  symbols are the numbers below \<open>2 ^ d\<close>; the codes \<open>2 ^ d\<close> and \<open>2 ^ d + 1\<close> are
  reserved for Clear and End-of-Information; the dictionary entries are numbered from
  \<open>2 ^ d + 2\<close>; the minimum code size is \<open>d + 1\<close> bits and the width grows up to 12
  bits.
\<close>

definition clear_code :: "nat \<Rightarrow> nat" where
  "clear_code d = 2 ^ d"

definition eoi_code :: "nat \<Rightarrow> nat" where
  "eoi_code d = 2 ^ d + 1"

definition first_code :: "nat \<Rightarrow> nat" where
  "first_code d = 2 ^ d + 2"

text \<open>
  Modelled from the spec: "growing code width as the dictionary crosses powers of two".
  When a code has been written, or read, and the decoder's dictionary holds \<open>n\<close> entries,
  the next code may be as large as \<open>first_code d + n\<close>, and the width grows by one bit as
  soon as that number needs it.
\<close>

definition grow :: "nat \<Rightarrow> nat \<Rightarrow> nat \<Rightarrow> nat" where
  "grow d n width = (if width < 12 \<and> first_code d + n \<ge> 2 ^ width then width + 1 else width)"

fun index_of :: "'a \<Rightarrow> 'a list \<Rightarrow> nat" where
  "index_of x [] = 0"
| "index_of x (y # ys) = (if x = y then 0 else Suc (index_of x ys))"

text \<open>Modelled from the spec: "the code for the longest known prefix match". A single
  symbol is its own code, a longer string has the number of its dictionary entry.\<close>

definition code_of :: "nat \<Rightarrow> nat list list \<Rightarrow> nat list \<Rightarrow> nat" where
  "code_of d table w = (case w of [k] \<Rightarrow> k | _ \<Rightarrow> first_code d + index_of w table)"

text \<open>
  Modelled from the spec: the encoder "builds a prefix dictionary over the indexed pixel
  sequence, emits the code for the longest known prefix match, adds the next symbol as a
  new dictionary entry, resets the dictionary at 4096 entries by emitting Clear, and
  flushes a final code plus End-of-Information". \<open>table\<close> is the dictionary, \<open>w\<close> the
  match so far; the result is the codes, each with the width it is written in.
\<close>

fun enc :: "nat \<Rightarrow> nat list list \<Rightarrow> nat list \<Rightarrow> nat \<Rightarrow> nat list \<Rightarrow> (nat \<times> nat) list" where
  "enc d table w width [] =
     (if w = [] then [(width, eoi_code d)]
      else [(width, code_of d table w), (grow d (length table) width, eoi_code d)])"
| "enc d table w width (k # ks) =
     (if w = [] then enc d table [k] width ks
      else if w @ [k] \<in> set table then enc d table (w @ [k]) width ks
      else (width, code_of d table w) #
           (if first_code d + length table < 4096
            then enc d (table @ [w @ [k]]) [k] (grow d (length table) width) ks
            else (grow d (length table) width, clear_code d) # enc d [] [k] (d + 1) ks))"

text \<open>Modelled from the spec: the codes of a whole sequence. The stream opens with a Clear
  code, as its section 7 requires of a well-formed stream.\<close>

definition lzw_codes :: "nat \<Rightarrow> nat list \<Rightarrow> (nat \<times> nat) list" where
  "lzw_codes d seq = (d + 1, clear_code d) # enc d [] [] (d + 1) seq"

text \<open>
  Modelled from the spec: the codes are packed "least-significant-bit-first across byte
  boundaries, in data sub-blocks of at most 255 bytes". A last, partial byte is filled with
  zero bits; each sub-block is preceded by its length, and a block of length zero ends the
  data.
\<close>

fun bits_of :: "nat \<Rightarrow> nat \<Rightarrow> bool list" where
  "bits_of 0 c = []"
| "bits_of (Suc n) c = odd c # bits_of n (c div 2)"

fun value_of :: "bool list \<Rightarrow> nat" where
  "value_of [] = 0"
| "value_of (b # bs) = (if b then 1 else 0) + 2 * value_of bs"

definition bits_of_codes :: "(nat \<times> nat) list \<Rightarrow> bool list" where
  "bits_of_codes cs = concat (map (\<lambda>(n, c). bits_of n c) cs)"

fun bytes_of_bits :: "bool list \<Rightarrow> nat list" where
  "bytes_of_bits bits =
     (if bits = [] then [] else value_of (take 8 bits) # bytes_of_bits (drop 8 bits))"

definition bits_of_bytes :: "nat list \<Rightarrow> bool list" where
  "bits_of_bytes bs = concat (map (bits_of 8) bs)"

fun blocks :: "nat list \<Rightarrow> nat list" where
  "blocks bs =
     (if bs = [] then [0] else length (take 255 bs) # take 255 bs @ blocks (drop 255 bs))"

fun unblocks :: "nat list \<Rightarrow> nat list option" where
  "unblocks [] = None"
| "unblocks (n # rest) =
     (if n = 0 then Some []
      else if length rest < n then None
      else map_option ((@) (take n rest)) (unblocks (drop n rest)))"

text \<open>
  Modelled from the spec: the decoder "rebuilds the dictionary incrementally from decoded
  codes (standard LZW dictionary reconstruction), growing code width as the dictionary
  crosses powers of two, and resets on an explicit Clear code"; a code beyond the
  dictionary is a corrupt stream (section 7). \<open>prev\<close> is the string of the previous code.
  The one code that may be read before its entry exists is the next entry's own number,
  which stands for \<open>prev\<close> followed by its first symbol.
\<close>

definition entry :: "nat \<Rightarrow> nat list list \<Rightarrow> nat list \<Rightarrow> nat \<Rightarrow> nat list option" where
  "entry d table prev c =
     (if c < 2 ^ d then Some [c]
      else if c < first_code d then None
      else if c - first_code d < length table then Some (table ! (c - first_code d))
      else if c - first_code d = length table \<and> prev \<noteq> [] then Some (prev @ [hd prev])
      else None)"

fun dec :: "nat \<Rightarrow> nat list list \<Rightarrow> nat list \<Rightarrow> nat \<Rightarrow> bool list \<Rightarrow> nat list option" where
  "dec d table prev width bits =
     (if width = 0 \<or> length bits < width then None
      else
        (let c = value_of (take width bits); rest = drop width bits
         in if c = clear_code d then dec d [] [] (d + 1) rest
            else if c = eoi_code d then Some []
            else
              (case entry d table prev c of
                 None \<Rightarrow> None
               | Some s \<Rightarrow>
                   (let table' = (if prev = [] \<or> first_code d + length table \<ge> 4096 then table
                                  else table @ [prev @ [hd s]])
                    in map_option ((@) s) (dec d table' s (grow d (length table') width) rest)))))"

text \<open>Modelled from the spec: a stream that does not open with a Clear code is corrupt
  (section 7: "a missing Clear code where structurally required").\<close>

definition dec_start :: "nat \<Rightarrow> bool list \<Rightarrow> nat list option" where
  "dec_start d bits =
     (if length bits < d + 1 then None
      else if value_of (take (d + 1) bits) = clear_code d then dec d [] [] (d + 1) (drop (d + 1) bits)
      else None)"

text \<open>Modelled from the spec: the colour depth for \<open>N\<close> symbols, \<open>N\<close> at most 256:
  the bits of an index, and at least two, as the GIF format has it.\<close>

definition depth_of :: "nat \<Rightarrow> nat" where
  "depth_of N =
     (if N \<le> 4 then 2 else if N \<le> 8 then 3 else if N \<le> 16 then 4
      else if N \<le> 32 then 5 else if N \<le> 64 then 6 else if N \<le> 128 then 7 else 8)"

text \<open>
  Modelled from the spec: \<^verbatim>\<open>lzw_encode(seq, N)\<close> and \<^verbatim>\<open>lzw_decode\<close> of its section 8.
  The encoded data is the colour depth in a byte, from which the decoder has the minimum
  code size, then the sub-blocks, as a GIF image carries them; the decoder fails
  (\<open>None\<close>) on a stream it cannot read.
\<close>

definition lzw_encode :: "nat list \<Rightarrow> nat \<Rightarrow> bytes" where
  "lzw_encode seq N =
     (let d = depth_of N
      in map of_nat (d # blocks (bytes_of_bits (bits_of_codes (lzw_codes d seq)))))"

definition lzw_decode :: "bytes \<Rightarrow> nat list option" where
  "lzw_decode bs =
     (case map unat bs of
        [] \<Rightarrow> None
      | d # rest \<Rightarrow>
          if d < 1 \<or> 8 < d then None
          else (case unblocks rest of
                  None \<Rightarrow> None
                | Some data \<Rightarrow> dec_start d (bits_of_bytes data)))"

text \<open>
  Encoder and decoder in step: the encoder holds the dictionary \<open>te\<close> and the match
  \<open>w\<close>, the decoder the dictionary \<open>td\<close> and the previous string \<open>prev\<close>. Either both
  have just been reset, or the encoder is ahead by the one entry that the decoder will add
  when it reads the next code.
\<close>

definition synced ::
  "nat \<Rightarrow> nat list list \<Rightarrow> nat list \<Rightarrow> nat list list \<Rightarrow> nat list \<Rightarrow> nat \<Rightarrow> bool" where
  "synced d te w td prev width \<longleftrightarrow>
     w \<noteq> [] \<and> (length w = 1 \<or> w \<in> set te) \<and> (\<forall>x\<in>set w. x < 2 ^ d) \<and>
     first_code d + length te \<le> 4096 \<and> d + 1 \<le> width \<and> width \<le> 12 \<and>
     ((prev = [] \<and> td = [] \<and> te = [] \<and> width = d + 1) \<or>
      (prev \<noteq> [] \<and> te = td @ [prev @ [hd w]] \<and> first_code d + length td < 2 ^ width))"

section \<open>Small instances to evaluate the definitions on\<close>

text \<open>
  A processor that holds the bytes it was loaded with and a cursor; loading the empty
  byte string fails; the export of caption \<open>t\<close> appends the byte \<open>t\<close> to the document.
\<close>

definition demo_engine :: "(bytes \<times> nat, unit, 8 word) engine" where
  "demo_engine = \<lparr>
     new_GifProcessor = ([], 0),
     process_gif = (\<lambda>b p. if b = [] then (Some (Exn ''DecodeError''), ([], 0)) else (None, (b, 0))),
     get_dimensions = (\<lambda>p. Inr (length (fst p), 1)),
     get_frame_delay = (\<lambda>p. Inr 10),
     render_current_frame = (\<lambda>p c. (None, c)),
     next_frame = (\<lambda>p. (None, (fst p, (snd p + 1) mod (length (fst p))))),
     add_caption = (\<lambda>p c a. (None, c)),
     prepare_text_overlay = (\<lambda>p a. Inr (of_nat (length (arg_text a)))),
     process_all_frames_with_text_data =
       (\<lambda>t p. (if fst p = [] then Inl (Exn ''NoDocument'') else Inr (fst p @ [t]), p))
   \<rparr>"

definition demo_request :: "8 word request" where
  "demo_request = \<lparr>req_type = ''process_gif'', req_data = \<lparr>gifData = [71, 73, 70], textData = 5\<rparr>\<rparr>"

definition demo_file :: js_file where
  "demo_file = \<lparr>file_name = ''a.gif'', file_bytes = [71, 73, 70]\<rparr>"

definition demo_core :: "(bytes, unit, 8 word) core" where
  "demo_core = \<lparr>
     decode = (\<lambda>b. if b = [] then Inl (Exn ''DecodeError'') else Inr b),
     doc_dimensions = (\<lambda>d. (length d, 1)),
     frame_count = length,
     frame_delay = (\<lambda>d k. 10),
     composite = (\<lambda>d k cv. (None, cv)),
     overlay = (\<lambda>cv a. cv),
     prepare_caption = (\<lambda>a. of_nat (length (arg_text a))),
     export_document = (\<lambda>d t. Inr (d @ [t]))
   \<rparr>"

text \<open>The page with a file chosen, the caption \<^verbatim>\<open>Hi\<close> typed, and both loops one
  second past their first tick.\<close>

definition demo_page :: "(bytes \<times> nat, unit, 8 word) page" where
  "demo_page = (page0 demo_engine)\<lparr>currentFile := Some demo_file, captionText := ''Hi'',
                                    lastFrameTime := 1000, lastProcessedFrameTime := 1000\<rparr>"

section \<open>Basic facts\<close>

declare schedule.simps [simp del]

lemma and_then_simps [simp]:
  "and_then (Some e, s) f = (Some e, s)"
  "and_then (None, s) f = f s"
  by (simp_all add: and_then_def)

subsection \<open>The worker\<close>

lemma ensure_init_cases:
  "ensure_init eng ir w =
     (case w_gifProcessor w of
        Some p \<Rightarrow> (None, w)
      | None \<Rightarrow>
          (case ir of
             Some e \<Rightarrow> (Some e, w_call Call_init w)
           | None \<Rightarrow> (None, (w_call Call_new (w_call Call_init w))
                               \<lparr>w_gifProcessor := Some (new_GifProcessor eng)\<rparr>)))"
  by (simp add: ensure_init_def initWasm_def Let_def split: option.splits)

lemma process_gif_case_posted:
  "w_gifProcessor w = Some p \<Longrightarrow>
   w_posted (process_gif_case eng w d) = w_posted w @ [export_reply eng p d]"
  by (simp add: process_gif_case_def export_reply_def postMessage_def w_call_def Let_def
      split: prod.splits option.splits sum.splits)

lemma process_gif_case_length:
  "length (w_posted (process_gif_case eng w d)) = length (w_posted w) + 1"
  by (simp add: process_gif_case_def postMessage_def w_call_def Let_def
      split: prod.splits option.splits sum.splits)

lemma process_gif_case_calls:
  "\<exists>cs. w_calls (process_gif_case eng w d) = w_calls w @ cs \<and>
        Call_init \<notin> set cs \<and> Call_new \<notin> set cs \<and>
        batch_args cs =
          (case w_gifProcessor w of
             None \<Rightarrow> []
           | Some q \<Rightarrow> if fst (process_gif eng (gifData d) q) = None then [textData d] else [])"
  by (auto simp: process_gif_case_def postMessage_def w_call_def batch_args_def Let_def
      split: prod.splits option.splits sum.splits)

lemma process_gif_case_processor:
  "w_gifProcessor w \<noteq> None \<Longrightarrow> w_gifProcessor (process_gif_case eng w d) \<noteq> None"
  "w_gifProcessor w = None \<Longrightarrow> w_gifProcessor (process_gif_case eng w d) = None"
  by (auto simp: process_gif_case_def postMessage_def w_call_def Let_def
      split: prod.splits option.splits sum.splits)

lemma dispatch_counts:
  "constructions (dispatch eng w m) = constructions w"
  "init_calls (dispatch eng w m) = init_calls w"
  using process_gif_case_calls[of eng w "req_data m"]
  by (auto simp: dispatch_def constructions_def init_calls_def)

lemma dispatch_processor:
  "(w_gifProcessor (dispatch eng w m) = None) = (w_gifProcessor w = None)"
  using process_gif_case_processor[of w eng "req_data m"]
  by (cases "w_gifProcessor w") (auto simp: dispatch_def)

lemma dispatch_keeps:
  "\<exists>p. w_gifProcessor w = Some p \<Longrightarrow> \<exists>q. w_gifProcessor (dispatch eng w m) = Some q"
  using dispatch_processor[of eng w m] by (cases "w_gifProcessor (dispatch eng w m)") auto

text \<open>The worker posts at most one message for a message it receives, and takes none
  back.\<close>

lemma onmessage_length:
  "length (w_posted (snd (onmessage eng ir w m))) \<le> length (w_posted w) + 1"
  "length (w_posted w) \<le> length (w_posted (snd (onmessage eng ir w m)))"
  by (simp_all add: onmessage_def ensure_init_def initWasm_def dispatch_def w_call_def Let_def
      process_gif_case_length split: option.splits)

text \<open>
  With a processor in place, or an \<^verbatim>\<open>init()\<close> that succeeds, a \<^verbatim>\<open>process_gif\<close>
  message is answered by exactly one message: the exported bytes, whole, or the string of
  the first error thrown; the handler itself does not throw.
\<close>

lemma onmessage_replies_once:
  assumes "req_type m = ''process_gif''"
    and "w_gifProcessor w \<noteq> None \<or> ir = None"
  shows "fst (onmessage eng ir w m) = None \<and>
         w_posted (snd (onmessage eng ir w m)) =
           w_posted w @
           [export_reply eng
              (case w_gifProcessor w of Some p \<Rightarrow> p | None \<Rightarrow> new_GifProcessor eng) (req_data m)]"
  using assms
  by (auto simp: onmessage_def ensure_init_cases dispatch_def process_gif_case_posted w_call_def
      split: option.splits)

lemma onmessage_batch_args:
  assumes "req_type m = ''process_gif''" and "w_gifProcessor w \<noteq> None \<or> ir = None"
  shows "batch_args (drop (length (w_calls w)) (w_calls (snd (onmessage eng ir w m)))) =
           (if fst (process_gif eng (gifData (req_data m))
                      (case w_gifProcessor w of Some q \<Rightarrow> q | None \<Rightarrow> new_GifProcessor eng)) = None
            then [textData (req_data m)] else [])"
proof (cases "w_gifProcessor w")
  case None
  with assms have ir: "ir = None" by simp
  let ?w1 = "(w_call Call_new (w_call Call_init w))\<lparr>w_gifProcessor := Some (new_GifProcessor eng)\<rparr>"
  obtain cs where cs: "w_calls (process_gif_case eng ?w1 (req_data m)) = w_calls ?w1 @ cs"
    "batch_args cs = (if fst (process_gif eng (gifData (req_data m)) (new_GifProcessor eng)) = None
                      then [textData (req_data m)] else [])"
    using process_gif_case_calls[of eng ?w1 "req_data m"] by auto
  show ?thesis
    using None ir assms(1) cs
    by (simp add: onmessage_def ensure_init_cases dispatch_def w_call_def batch_args_def)
next
  case (Some q)
  obtain cs where cs: "w_calls (process_gif_case eng w (req_data m)) = w_calls w @ cs"
    "batch_args cs = (if fst (process_gif eng (gifData (req_data m)) q) = None
                      then [textData (req_data m)] else [])"
    using process_gif_case_calls[of eng w "req_data m"] Some by auto
  show ?thesis
    using Some assms(1) cs
    by (simp add: onmessage_def ensure_init_cases dispatch_def)
qed

lemma process_gif_case_batch_subset:
  "set (batch_args (w_calls (process_gif_case eng w d)))
     \<subseteq> set (batch_args (w_calls w)) \<union> {textData d}"
proof -
  obtain cs where cs: "w_calls (process_gif_case eng w d) = w_calls w @ cs"
    "set (batch_args cs) \<subseteq> {textData d}"
    using process_gif_case_calls[of eng w d] by (auto split: option.splits if_splits)
  then show ?thesis by (auto simp: batch_args_def)
qed

lemma onmessage_batch_subset:
  "set (batch_args (w_calls (snd (onmessage eng ir w m))))
     \<subseteq> set (batch_args (w_calls w)) \<union> {textData (req_data m)}"
  using process_gif_case_batch_subset[of eng w "req_data m"]
    process_gif_case_batch_subset[of eng
      "(w_call Call_new (w_call Call_init w))\<lparr>w_gifProcessor := Some (new_GifProcessor eng)\<rparr>"
      "req_data m"]
  by (auto simp: onmessage_def ensure_init_cases dispatch_def w_call_def batch_args_def
      split: option.splits)

lemma take2_iff:
  "(take 2 cs = [a, b] \<and> P (drop 2 cs)) = (\<exists>r. cs = a # b # r \<and> P r)"
proof
  assume h: "take 2 cs = [a, b] \<and> P (drop 2 cs)"
  have "cs = take 2 cs @ drop 2 cs" by simp
  with h have "cs = a # b # drop 2 cs" by (metis append_Cons append_Nil)
  with h show "\<exists>r. cs = a # b # r \<and> P r" by blast
next
  assume "\<exists>r. cs = a # b # r \<and> P r"
  then show "take 2 cs = [a, b] \<and> P (drop 2 cs)" by (auto simp: numeral_2_eq_2)
qed

lemma dispatch_calls:
  "\<exists>cs. w_calls (dispatch eng w m) = w_calls w @ cs \<and> Call_init \<notin> set cs \<and> Call_new \<notin> set cs"
  using process_gif_case_calls[of eng w "req_data m"] by (auto simp: dispatch_def)

text \<open>The first message a worker receives, and a message that finds a processor.\<close>

lemma onmessage_first:
  assumes "w_gifProcessor w = None" and "w_calls w = []"
  shows "if ir = None
         then w_gifProcessor (snd (onmessage eng ir w m)) \<noteq> None \<and>
              take 2 (w_calls (snd (onmessage eng ir w m))) = [Call_init, Call_new] \<and>
              Call_init \<notin> set (drop 2 (w_calls (snd (onmessage eng ir w m)))) \<and>
              Call_new \<notin> set (drop 2 (w_calls (snd (onmessage eng ir w m))))
         else w_gifProcessor (snd (onmessage eng ir w m)) = None \<and>
              w_calls (snd (onmessage eng ir w m)) = [Call_init] \<and>
              w_posted (snd (onmessage eng ir w m)) = w_posted w"
proof (cases ir)
  case None
  let ?w1 = "(w_call Call_new (w_call Call_init w))\<lparr>w_gifProcessor := Some (new_GifProcessor eng)\<rparr>"
  have o: "snd (onmessage eng ir w m) = dispatch eng ?w1 m"
    using None assms(1) by (simp add: onmessage_def ensure_init_cases)
  have c1: "w_calls ?w1 = [Call_init, Call_new]" using assms(2) by (simp add: w_call_def)
  obtain cs where cs: "w_calls (dispatch eng ?w1 m) = w_calls ?w1 @ cs"
    "Call_init \<notin> set cs" "Call_new \<notin> set cs"
    using dispatch_calls[of eng ?w1 m] by auto
  have p: "w_gifProcessor (dispatch eng ?w1 m) \<noteq> None"
    using dispatch_processor[of eng ?w1 m] by simp
  show ?thesis using None o cs c1 p by simp
next
  case (Some e)
  then show ?thesis using assms
    by (simp add: onmessage_def ensure_init_cases w_call_def)
qed

lemma onmessage_later:
  assumes "w_gifProcessor w \<noteq> None"
  shows "\<exists>cs. w_calls (snd (onmessage eng ir w m)) = w_calls w @ cs \<and>
              Call_init \<notin> set cs \<and> Call_new \<notin> set cs"
    and "w_gifProcessor (snd (onmessage eng ir w m)) \<noteq> None"
proof -
  have o: "snd (onmessage eng ir w m) = dispatch eng w m"
    using assms by (auto simp: onmessage_def ensure_init_cases)
  show "\<exists>cs. w_calls (snd (onmessage eng ir w m)) = w_calls w @ cs \<and>
              Call_init \<notin> set cs \<and> Call_new \<notin> set cs"
    unfolding o by (rule dispatch_calls)
  show "w_gifProcessor (snd (onmessage eng ir w m)) \<noteq> None"
    unfolding o using assms dispatch_processor[of eng w m] by simp
qed

text \<open>The calls the worker makes for the request of an export whose load succeeds.\<close>

lemma onmessage_export_calls:
  assumes "w_gifProcessor w \<noteq> None \<or> ir = None"
    and "fst (process_gif eng (file_bytes f)
                (case w_gifProcessor w of Some q \<Rightarrow> q | None \<Rightarrow> new_GifProcessor eng)) = None"
  shows "w_calls (snd (onmessage eng ir w (export_request f t))) =
           w_calls w @ (if w_gifProcessor w = None then [Call_init, Call_new] else []) @
           [Call_process_gif (file_bytes f), Call_process_all_frames t]"
  using assms
  by (auto simp: onmessage_def ensure_init_cases dispatch_def process_gif_case_def
      export_request_def w_call_def postMessage_def Let_def
      split: option.splits prod.splits sum.splits)

subsection \<open>Handlers of the page that take no part in the export\<close>

lemma quiet_refl [simp]: "quiet st st"
  by (simp add: quiet_def)

lemma quiet_trans: "quiet a b \<Longrightarrow> quiet b c \<Longrightarrow> quiet a c"
  by (simp add: quiet_def)

lemma quiet_and_then:
  assumes "quiet st (snd r)" and "\<And>s. quiet s (snd (g s))"
  shows "quiet st (snd (and_then r g))"
proof (cases r)
  case (Pair x s)
  show ?thesis
  proof (cases x)
    case None
    with Pair assms(1) assms(2)[of s] show ?thesis by (auto intro: quiet_trans)
  next
    case (Some e)
    with Pair assms(1) show ?thesis by simp
  qed
qed

lemma quiet_log_call: "\<not> is_batch c \<Longrightarrow> quiet st (log_call a c st)"
  by (simp add: quiet_def log_call_def)

lemma quiet_call_method: "\<not> is_batch c \<Longrightarrow> quiet st (snd (call_method a c f st))"
  by (auto simp: quiet_def call_method_def log_call_def Let_def split: option.splits prod.splits)

lemma quiet_call_query: "\<not> is_batch c \<Longrightarrow> quiet st (snd (call_query a c f st))"
  by (auto simp: quiet_def call_query_def log_call_def split: option.splits)

lemma quiet_schedule_iff [simp]: "quiet st (schedule cb s) = quiet st s"
  by (cases cb) (simp_all add: schedule.simps requestAnimationFrame_def quiet_def)

lemma quiet_startAnimation: "quiet st (startAnimation st)"
  by (simp add: quiet_def startAnimation_def schedule.simps requestAnimationFrame_def
      cancelAnimationFrame_def cancel_if_set_def Let_def split: prod.splits)

lemma quiet_updatePreview: "quiet st (snd (updatePreview eng st))"
  by (auto simp: quiet_def updatePreview_def call_query_def log_call_def Let_def
      split: option.splits prod.splits sum.splits)

lemma quiet_render_preview: "quiet st (snd (render_preview eng st))"
  by (auto simp: quiet_def render_preview_def log_call_def Let_def split: option.splits prod.splits)

lemma quiet_render_processed: "quiet st (snd (render_processed eng st))"
  by (auto simp: quiet_def render_processed_def log_call_def Let_def split: option.splits prod.splits)

lemma quiet_upd [simp]:
  "quiet st (s\<lparr>lastFrameTime := x\<rparr>) = quiet st s"
  "quiet st (s\<lparr>lastProcessedFrameTime := x\<rparr>) = quiet st s"
  by (simp_all add: quiet_def)

lemma quiet_advance_preview: "quiet st (snd (advance_preview eng ts st))"
  unfolding advance_preview_def
  by (intro quiet_and_then quiet_render_preview quiet_updatePreview quiet_call_method) simp_all

lemma quiet_advance_processed: "quiet st (snd (advance_processed eng ts st))"
  unfolding advance_processed_def
  by (intro quiet_and_then quiet_render_processed quiet_call_method) simp_all

text \<open>The two callbacks, case by case.\<close>

lemma animate_unfold:
  "animate eng ts st =
     (case store st (gifProcessor st) of
        None \<Rightarrow> (Some null_deref, if lastFrameTime st = 0 then st\<lparr>lastFrameTime := ts\<rparr> else st)
      | Some p \<Rightarrow>
          (case get_frame_delay eng p of
             Inl e \<Rightarrow> (Some e, after_query st ts)
           | Inr d \<Rightarrow>
               and_then
                 (if lastFrameTime st \<noteq> 0 \<and> ts - lastFrameTime st > real d * 10
                  then advance_preview eng ts (after_query st ts) else (None, after_query st ts))
                 (\<lambda>st3. (None, schedule Animate st3))))"
  by (simp add: animate_def call_query_def after_query_def Let_def split: option.splits sum.splits)

lemma animateProcessed_unfold:
  "animateProcessed eng ts st =
     (case store st (processedGifProcessor st) of
        None \<Rightarrow> (Some null_deref,
                 if lastProcessedFrameTime st = 0 then st\<lparr>lastProcessedFrameTime := ts\<rparr> else st)
      | Some p \<Rightarrow>
          (case get_frame_delay eng p of
             Inl e \<Rightarrow> (Some e, after_query_processed st ts)
           | Inr d \<Rightarrow>
               and_then
                 (if lastProcessedFrameTime st \<noteq> 0 \<and> ts - lastProcessedFrameTime st > real d * 10
                     \<and> processedGifData st \<noteq> None
                  then advance_processed eng ts (after_query_processed st ts)
                  else (None, after_query_processed st ts))
                 (\<lambda>st3. (None, schedule AnimateProcessed st3))))"
  by (auto simp: animateProcessed_def call_query_def after_query_processed_def log_call_def Let_def
      split: option.splits sum.splits)

lemma quiet_after_query: "quiet st (after_query st ts)" "quiet st (after_query_processed st ts)"
  by (simp_all add: after_query_def after_query_processed_def quiet_def log_call_def)

lemma quiet_animate: "quiet st (snd (animate eng ts st))"
  unfolding animate_unfold
  by (auto split: option.splits sum.splits
      simp: quiet_after_query
      intro!: quiet_and_then quiet_trans[OF quiet_after_query(1) quiet_advance_preview])

lemma quiet_animateProcessed: "quiet st (snd (animateProcessed eng ts st))"
  unfolding animateProcessed_unfold
  by (auto split: option.splits sum.splits
      simp: quiet_after_query
      intro!: quiet_and_then quiet_trans[OF quiet_after_query(2) quiet_advance_processed])

lemma quiet_cancel: "quiet st (cancelAnimationFrame i st)"
  by (simp add: quiet_def cancelAnimationFrame_def)

lemma quiet_run_frame: "quiet st (snd (run_frame eng i ts st))"
  unfolding run_frame_def
  by (auto split: option.splits callback.splits
      intro: quiet_trans[OF quiet_cancel quiet_animate]
             quiet_trans[OF quiet_cancel quiet_animateProcessed])

lemma quiet_handleFile_begin: "quiet st (handleFile_begin f st)"
  by (simp add: quiet_def handleFile_begin_def)

lemma quiet_handleFile_catch: "quiet st (handleFile_catch e st)"
  by (simp add: quiet_def handleFile_catch_def)

lemma quiet_handleFile_loaded: "quiet st (handleFile_loaded eng b st)"
proof -
  obtain r st1 where
    m: "call_method (gifProcessor st) (Call_process_gif b) (process_gif eng b) st = (r, st1)"
    by fastforce
  have q1: "quiet st st1"
    using quiet_call_method[of "Call_process_gif b" st "gifProcessor st" "process_gif eng b"] m
    by simp
  obtain r2 st2 where
    q: "call_query (gifProcessor st1) Call_get_dimensions (get_dimensions eng) st1 = (r2, st2)"
    by fastforce
  have q2: "quiet st1 st2"
    using quiet_call_query[of Call_get_dimensions st1 "gifProcessor st1" "get_dimensions eng"] q
    by simp
  have q3: "\<And>s x y. quiet s (startAnimation (s\<lparr>preview := x, processedPreview := y\<rparr>))"
    by (rule quiet_trans[OF _ quiet_startAnimation]) (simp add: quiet_def)
  show ?thesis
    using m q q1 q2 q3
    by (auto simp: handleFile_loaded_def split: option.splits sum.splits prod.splits)
       (blast intro: quiet_trans quiet_handleFile_catch)+
qed

lemma quiet_on_input: "quiet st (on_input eng v st)"
proof -
  have "quiet st (set_input v st)" by (cases v) (simp_all add: quiet_def)
  then have "quiet st (snd (updatePreview eng (set_input v st)))"
    by (rule quiet_trans) (rule quiet_updatePreview)
  then show ?thesis by (simp add: on_input_def Let_def quiet_def)
qed

subsection \<open>Handlers of the export\<close>

lemma startAnimation_frame [simp]:
  "outbox (startAnimation st) = outbox st"
  "pending (startAnimation st) = pending st"
  "isProcessing (startAnimation st) = isProcessing st"
  "gifProcessor (startAnimation st) = gifProcessor st"
  "processedGifProcessor (startAnimation st) = processedGifProcessor st"
  "store (startAnimation st) = store st"
  "calls (startAnimation st) = calls st"
  "alerts (startAnimation st) = alerts st"
  "processButton_disabled (startAnimation st) = processButton_disabled st"
  "processButton_text (startAnimation st) = processButton_text st"
  by (simp_all add: startAnimation_def schedule.simps requestAnimationFrame_def
      cancelAnimationFrame_def cancel_if_set_def Let_def split: prod.splits)

lemma click_catch_frame [simp]:
  "outbox (click_catch e st) = outbox st"
  "pending (click_catch e st) = pending st"
  "isProcessing (click_catch e st) = False"
  "gifProcessor (click_catch e st) = gifProcessor st"
  "processedGifProcessor (click_catch e st) = processedGifProcessor st"
  "store (click_catch e st) = store st"
  "calls (click_catch e st) = calls st"
  by (simp_all add: click_catch_def)

lemma click_begin_guard:
  "currentFile st = None \<or> isProcessing st \<Longrightarrow> click_begin eng st = st"
  by (auto simp: click_begin_def split: option.splits)

lemma click_begin_frame [simp]:
  "outbox (click_begin eng st) = outbox st"
  "gifProcessor (click_begin eng st) = gifProcessor st"
  "processedGifProcessor (click_begin eng st) = processedGifProcessor st"
  "store (click_begin eng st) = store st"
  "filter (\<lambda>(a, c). is_batch c) (calls (click_begin eng st)) = filter (\<lambda>(a, c). is_batch c) (calls st)"
  by (auto simp: click_begin_def initWorker_def call_query_def log_call_def Let_def
      split: option.splits sum.splits)

lemma click_begin_flags:
  "\<not> isProcessing st \<Longrightarrow> pending st = None \<Longrightarrow>
   (isProcessing (click_begin eng st) \<and> pending (click_begin eng st) \<noteq> None) \<or>
   (\<not> isProcessing (click_begin eng st) \<and> pending (click_begin eng st) = None)"
  by (auto simp: click_begin_def initWorker_def call_query_def log_call_def Let_def
      split: option.splits sum.splits)

lemma click_finish_frame [simp]:
  "gifProcessor (click_finish r st) = gifProcessor st"
  "processedGifProcessor (click_finish r st) = processedGifProcessor st"
  "store (click_finish r st) = store st"
  "calls (click_finish r st) = calls st"
  "pending (click_finish r st) = None"
  by (auto simp: click_finish_def split: option.splits prod.splits)

lemma click_finish_idle: "pending st = None \<Longrightarrow> click_finish r st = st"
  by (simp add: click_finish_def)

lemma click_finish_flags:
  "pending st \<noteq> None \<Longrightarrow>
   (length (outbox (click_finish r st)) = length (outbox st) + 1 \<and>
      isProcessing (click_finish r st) = isProcessing st) \<or>
   (outbox (click_finish r st) = outbox st \<and> \<not> isProcessing (click_finish r st))"
  by (auto simp: click_finish_def split: option.splits prod.splits)

lemma page_onmessage_frame [simp]:
  "outbox (snd (page_onmessage eng r st)) = outbox st"
  "pending (snd (page_onmessage eng r st)) = pending st"
  "gifProcessor (snd (page_onmessage eng r st)) = gifProcessor st"
  "processedGifProcessor (snd (page_onmessage eng r st)) = processedGifProcessor st"
  "filter (\<lambda>(a, c). is_batch c) (calls (snd (page_onmessage eng r st))) = filter (\<lambda>(a, c). is_batch c) (calls st)"
  by (auto simp: page_onmessage_def call_method_def log_call_def and_then_def Let_def
      split: reply.splits option.splits prod.splits)

lemma page_onmessage_dom [simp]:
  "dom (store (snd (page_onmessage eng r st))) = dom (store st)"
  by (auto simp: page_onmessage_def call_method_def log_call_def and_then_def Let_def
      split: reply.splits option.splits prod.splits if_splits)

lemma page_onmessage_store:
  "a \<noteq> processedGifProcessor st \<Longrightarrow> store (snd (page_onmessage eng r st)) a = store st a"
  by (auto simp: page_onmessage_def call_method_def log_call_def and_then_def Let_def
      split: reply.splits option.splits prod.splits)

subsection \<open>Invariants of the two threads together\<close>

lemma channels_ok_quiet:
  "channels_ok s \<Longrightarrow> quiet (sys_page s) st' \<Longrightarrow> channels_ok (s\<lparr>sys_page := st'\<rparr>)"
  by (simp add: channels_ok_def quiet_def)

lemma channels_ok_step:
  assumes ok: "channels_ok s"
  shows "channels_ok (step eng ev s)"
proof (cases ev)
  case (Choose_file f)
  then show ?thesis by (simp add: channels_ok_quiet[OF ok quiet_handleFile_begin])
next
  case (File_read b)
  then show ?thesis by (simp add: channels_ok_quiet[OF ok quiet_handleFile_loaded])
next
  case Resize
  then show ?thesis
    by (simp add: channels_ok_quiet[OF ok quiet_handleFile_begin] ok split: option.splits)
next
  case (Change v)
  then show ?thesis by (simp add: channels_ok_quiet[OF ok quiet_on_input])
next
  case (Frame i ts)
  then show ?thesis by (simp add: channels_ok_quiet[OF ok quiet_run_frame])
next
  case Click
  show ?thesis
  proof (cases "currentFile (sys_page s) = None \<or> isProcessing (sys_page s)")
    case True
    then show ?thesis using ok Click by (simp add: click_begin_guard)
  next
    case False
    then have np: "\<not> isProcessing (sys_page s)" by simp
    with ok have pn: "pending (sys_page s) = None"
      by (cases "pending (sys_page s)") (auto simp: channels_ok_def)
    from click_begin_flags[OF np pn, of eng] ok np Click show ?thesis
      by (auto simp: channels_ok_def)
  qed
next
  case (Click_read r)
  show ?thesis
  proof (cases "pending (sys_page s)")
    case None
    then show ?thesis using ok Click_read by (simp add: click_finish_idle)
  next
    case (Some a)
    then have "pending (sys_page s) \<noteq> None" by simp
    from click_finish_flags[OF this, of r] ok Some Click_read show ?thesis
      by (auto simp: channels_ok_def)
  qed
next
  case (Deliver_to_worker ir)
  with ok show ?thesis
    using onmessage_length[where eng = eng and ir = ir and w = "sys_worker s"
        and m = "outbox (sys_page s) ! to_worker s"]
    by (auto simp: channels_ok_def)
next
  case Deliver_to_page
  with ok show ?thesis
    by (auto simp: channels_ok_def)
qed

lemma channels_ok_run: "channels_ok s \<Longrightarrow> channels_ok (run eng evs s)"
  by (induction evs arbitrary: s) (simp_all add: channels_ok_step)

lemma channels_ok_system0: "channels_ok (system0 eng)"
  by (simp add: channels_ok_def system0_def page0_def worker0_def new_object_def Let_def)

lemma refs_ok_page0: "refs_ok (page0 eng)"
  by (simp add: refs_ok_def page0_def new_object_def Let_def)

lemma refs_ok_quiet: "refs_ok st \<Longrightarrow> quiet st st' \<Longrightarrow> refs_ok st'"
  by (auto simp: refs_ok_def quiet_def dom_def set_eq_iff)

lemma refs_ok_step:
  assumes ok: "refs_ok (sys_page s)"
  shows "refs_ok (sys_page (step eng ev s))"
proof (cases ev)
  case (Choose_file f)
  then show ?thesis using refs_ok_quiet[OF ok quiet_handleFile_begin] by simp
next
  case (File_read b)
  then show ?thesis using refs_ok_quiet[OF ok quiet_handleFile_loaded] by simp
next
  case Resize
  then show ?thesis using refs_ok_quiet[OF ok quiet_handleFile_begin] ok
    by (simp split: option.splits)
next
  case (Change v)
  then show ?thesis using refs_ok_quiet[OF ok quiet_on_input] by simp
next
  case (Frame i ts)
  then show ?thesis using refs_ok_quiet[OF ok quiet_run_frame] by simp
next
  case Click
  then show ?thesis using ok by (simp add: refs_ok_def)
next
  case (Click_read r)
  then show ?thesis using ok by (simp add: refs_ok_def)
next
  case (Deliver_to_worker ir)
  then show ?thesis using ok by simp
next
  case Deliver_to_page
  have "\<And>r. refs_ok (snd (page_onmessage eng r (sys_page s)))"
    using ok page_onmessage_dom[of eng _ "sys_page s"]
    by (auto simp: refs_ok_def dom_def set_eq_iff)
  with ok Deliver_to_page show ?thesis by simp
qed

lemma refs_ok_run: "refs_ok (sys_page s) \<Longrightarrow> refs_ok (sys_page (run eng evs s))"
  by (induction evs arbitrary: s) (simp_all add: refs_ok_step)

lemma export_step_preview:
  assumes "refs_ok (sys_page s)" and "is_export ev"
  shows "gifProcessor (sys_page (step eng ev s)) = gifProcessor (sys_page s) \<and>
         store (sys_page (step eng ev s)) (gifProcessor (sys_page s)) =
           store (sys_page s) (gifProcessor (sys_page s))"
  using assms
  by (cases ev) (auto simp: refs_ok_def page_onmessage_store)

lemma export_run_preview:
  assumes "refs_ok (sys_page s)" and "list_all is_export evs"
  shows "gifProcessor (sys_page (run eng evs s)) = gifProcessor (sys_page s) \<and>
         store (sys_page (run eng evs s)) (gifProcessor (sys_page s)) =
           store (sys_page s) (gifProcessor (sys_page s))"
  using assms
proof (induction evs arbitrary: s)
  case Nil
  then show ?case by simp
next
  case (Cons ev evs)
  have 1: "refs_ok (sys_page (step eng ev s))" using Cons.prems(1) by (rule refs_ok_step)
  have 2: "list_all is_export evs" "is_export ev" using Cons.prems(2) by simp_all
  from Cons.IH[OF 1 2(1)] export_step_preview[OF Cons.prems(1) 2(2), of eng]
  show ?case by simp
qed

lemma batch_ok_quiet:
  "batch_ok s \<Longrightarrow> quiet (sys_page s) st' \<Longrightarrow> batch_ok (s\<lparr>sys_page := st'\<rparr>)"
  by (simp add: batch_ok_def quiet_def batch_calls_def requested_def)

lemma batch_ok_step:
  assumes ok: "batch_ok s"
  shows "batch_ok (step eng ev s)"
proof (cases ev)
  case (Choose_file f)
  then show ?thesis by (simp add: batch_ok_quiet[OF ok quiet_handleFile_begin])
next
  case (File_read b)
  then show ?thesis by (simp add: batch_ok_quiet[OF ok quiet_handleFile_loaded])
next
  case Resize
  then show ?thesis
    by (simp add: batch_ok_quiet[OF ok quiet_handleFile_begin] ok split: option.splits)
next
  case (Change v)
  then show ?thesis by (simp add: batch_ok_quiet[OF ok quiet_on_input])
next
  case (Frame i ts)
  then show ?thesis by (simp add: batch_ok_quiet[OF ok quiet_run_frame])
next
  case Click
  then show ?thesis using ok by (simp add: batch_ok_def batch_calls_def requested_def)
next
  case (Click_read r)
  then show ?thesis using ok
    by (auto simp: batch_ok_def batch_calls_def requested_def click_finish_def
        split: option.splits prod.splits)
next
  case (Deliver_to_worker ir)
  show ?thesis
  proof (cases "to_worker s < length (outbox (sys_page s))")
    case True
    have "take (Suc (to_worker s)) (outbox (sys_page s)) =
            take (to_worker s) (outbox (sys_page s)) @ [outbox (sys_page s) ! to_worker s]"
      using True by (rule take_Suc_conv_app_nth)
    then show ?thesis
      using ok True Deliver_to_worker
        onmessage_batch_subset[where eng = eng and ir = ir and w = "sys_worker s"
          and m = "outbox (sys_page s) ! to_worker s"]
      by (auto simp: batch_ok_def requested_def)
  next
    case False
    then show ?thesis using ok Deliver_to_worker by simp
  qed
next
  case Deliver_to_page
  then show ?thesis using ok by (auto simp: batch_ok_def batch_calls_def requested_def)
qed

lemma batch_ok_run: "batch_ok s \<Longrightarrow> batch_ok (run eng evs s)"
  by (induction evs arbitrary: s) (simp_all add: batch_ok_step)

lemma batch_ok_system0: "batch_ok (system0 eng)"
  by (simp add: batch_ok_def system0_def page0_def worker0_def new_object_def Let_def
      batch_calls_def batch_args_def requested_def)

text \<open>A message is delivered to the worker only when every earlier one has had its reply
  delivered, and while a request is without its reply no handler of the page sends another:
  no message arrives while the worker handles one.\<close>

lemma delivery_is_last:
  assumes "channels_ok s" and "to_worker s < length (outbox (sys_page s))"
  shows "length (outbox (sys_page s)) = to_worker s + 1"
    and "to_page s = length (w_posted (sys_worker s))"
    and "length (w_posted (sys_worker s)) = to_worker s"
  using assms by (auto simp: channels_ok_def)

lemma page_waits:
  assumes ch: "channels_ok s" and w: "length (outbox (sys_page s)) = to_page s + 1"
    and ev: "ev \<noteq> Deliver_to_page"
  shows "outbox (sys_page (step eng ev s)) = outbox (sys_page s)"
proof -
  have p: "isProcessing (sys_page s)" "pending (sys_page s) = None"
    using ch w by (auto simp: channels_ok_def)
  show ?thesis
  proof (cases ev)
    case (Choose_file f)
    then show ?thesis using quiet_handleFile_begin[of "sys_page s" f] by (simp add: quiet_def)
  next
    case (File_read b)
    then show ?thesis using quiet_handleFile_loaded[of "sys_page s" eng b] by (simp add: quiet_def)
  next
    case Resize
    then show ?thesis using quiet_handleFile_begin[of "sys_page s"]
      by (simp add: quiet_def split: option.splits)
  next
    case (Change v)
    then show ?thesis using quiet_on_input[of "sys_page s" eng v] by (simp add: quiet_def)
  next
    case (Frame i ts)
    then show ?thesis using quiet_run_frame[of "sys_page s" eng i ts] by (simp add: quiet_def)
  next
    case Click
    then show ?thesis using p by (simp add: click_begin_guard)
  next
    case (Click_read r)
    then show ?thesis using p by (simp add: click_finish_idle)
  next
    case (Deliver_to_worker ir)
    then show ?thesis by simp
  next
    case Deliver_to_page
    then show ?thesis using ev by simp
  qed
qed

text \<open>While the page is not exporting, the worker has received every request.\<close>

lemma idle_no_backlog:
  assumes "channels_ok s" and "\<not> isProcessing (sys_page s)"
  shows "to_worker s = length (outbox (sys_page s))" and "pending (sys_page s) = None"
  using assms by (cases "pending (sys_page s)"; auto simp: channels_ok_def)+

text \<open>After a first message whose \<^verbatim>\<open>init()\<close> failed, the page waits for a reply that
  does not come, and sends nothing more: no message is left to deliver.\<close>

lemma stuck_after_failed_init:
  assumes "channels_ok s" and "init_ok s" and "0 < to_worker s"
    and "w_gifProcessor (sys_worker s) = None"
  shows "to_worker s = length (outbox (sys_page s))"
  using assms by (auto simp: channels_ok_def init_ok_def split: if_splits)

lemma init_ok_step:
  assumes ch: "channels_ok s" and ok: "init_ok s"
  shows "init_ok (step eng ev s)"
proof (cases ev)
  case (Deliver_to_worker ir)
  show ?thesis
  proof (cases "to_worker s < length (outbox (sys_page s))")
    case False
    then show ?thesis using ok Deliver_to_worker by simp
  next
    case True
    let ?m = "outbox (sys_page s) ! to_worker s"
    show ?thesis
    proof (cases "to_worker s = 0")
      case z: True
      then have f: "w_gifProcessor (sys_worker s) = None" "w_calls (sys_worker s) = []"
        using ok by (simp_all add: init_ok_def)
      have "w_posted (sys_worker s) = []" using ch z by (simp add: channels_ok_def)
      with onmessage_first[OF f, of ir eng ?m] True Deliver_to_worker show ?thesis
        by (auto simp: init_ok_def split: if_splits)
    next
      case nz: False
      then have p: "w_gifProcessor (sys_worker s) \<noteq> None"
        using stuck_after_failed_init[OF ch ok] True by auto
      from ok nz p obtain r where r: "w_calls (sys_worker s) = Call_init # Call_new # r"
        "Call_init \<notin> set r" "Call_new \<notin> set r"
        using take2_iff[of "w_calls (sys_worker s)" Call_init Call_new
            "\<lambda>r. Call_init \<notin> set r \<and> Call_new \<notin> set r"]
        by (auto simp: init_ok_def)
      from onmessage_later[OF p, of eng ir ?m] r nz True Deliver_to_worker show ?thesis
        by (auto simp: init_ok_def numeral_2_eq_2)
    qed
  qed
qed (insert ok, simp_all add: init_ok_def split: option.splits)

lemma init_ok_system0: "init_ok (system0 eng)"
  by (simp add: init_ok_def system0_def worker0_def)

lemma init_ok_run: "channels_ok s \<Longrightarrow> init_ok s \<Longrightarrow> init_ok (run eng evs s)"
  by (induction evs arbitrary: s) (simp_all add: init_ok_step channels_ok_step)

lemma init_ok_shape:
  assumes u: "init_ok u"
  shows "lazy_trace (w_calls (sys_worker u)) \<and>
         init_calls (sys_worker u) = (if to_worker u = 0 then 0 else 1) \<and>
         constructions (sys_worker u) = (if w_gifProcessor (sys_worker u) = None then 0 else 1)"
proof (cases "to_worker u = 0 \<or> w_gifProcessor (sys_worker u) = None")
  case True
  then show ?thesis using u
    by (auto simp: init_ok_def lazy_trace_def init_calls_def constructions_def split: if_splits)
next
  case False
  with u obtain r where "w_calls (sys_worker u) = Call_init # Call_new # r"
    "Call_init \<notin> set r" "Call_new \<notin> set r"
    using take2_iff[of "w_calls (sys_worker u)" Call_init Call_new
        "\<lambda>r. Call_init \<notin> set r \<and> Call_new \<notin> set r"]
    by (auto simp: init_ok_def)
  with False show ?thesis
    by (auto simp: lazy_trace_def init_calls_def constructions_def numeral_2_eq_2)
qed

subsection \<open>The callbacks and the flag \<^verbatim>\<open>isProcessing\<close>\<close>

lemma exporting_pair [simp]: "exporting b (x, s) = (x, s\<lparr>isProcessing := b\<rparr>)"
  by (simp add: exporting_def)

lemma and_then_exporting:
  assumes "\<And>s. g (s\<lparr>isProcessing := b\<rparr>) = exporting b (g s)"
  shows "and_then (exporting b r) g = exporting b (and_then r g)"
  using assms by (cases r; cases "fst r") (auto simp: and_then_def)

lemma updatePreview_exporting:
  "updatePreview eng (st\<lparr>isProcessing := b\<rparr>) = exporting b (updatePreview eng st)"
  by (simp add: updatePreview_def call_query_def log_call_def Let_def
      split: option.splits sum.splits prod.splits)

lemma render_preview_exporting:
  "render_preview eng (st\<lparr>isProcessing := b\<rparr>) = exporting b (render_preview eng st)"
  by (simp add: render_preview_def log_call_def Let_def split: option.splits prod.splits)

lemma render_processed_exporting:
  "render_processed eng (st\<lparr>isProcessing := b\<rparr>) = exporting b (render_processed eng st)"
  by (simp add: render_processed_def log_call_def Let_def split: option.splits prod.splits)

lemma call_method_exporting:
  "call_method a c f (st\<lparr>isProcessing := b\<rparr>) = exporting b (call_method a c f st)"
  by (simp add: call_method_def log_call_def Let_def split: option.splits prod.splits)

lemma schedule_exporting:
  "schedule cb (st\<lparr>isProcessing := b\<rparr>) = (schedule cb st)\<lparr>isProcessing := b\<rparr>"
  by (cases cb) (simp_all add: schedule.simps requestAnimationFrame_def)

lemma advance_preview_exporting:
  "advance_preview eng ts (st\<lparr>isProcessing := b\<rparr>) = exporting b (advance_preview eng ts st)"
proof -
  have n: "\<And>s. and_then (call_method (gifProcessor (s\<lparr>isProcessing := b\<rparr>)) Call_next_frame
                           (next_frame eng) (s\<lparr>isProcessing := b\<rparr>))
              (\<lambda>st3. (None, st3\<lparr>lastFrameTime := ts\<rparr>))
          = exporting b (and_then (call_method (gifProcessor s) Call_next_frame (next_frame eng) s)
              (\<lambda>st3. (None, st3\<lparr>lastFrameTime := ts\<rparr>)))"
    by (simp add: call_method_exporting and_then_exporting)
  have u: "\<And>s. and_then (updatePreview eng (s\<lparr>isProcessing := b\<rparr>)) (\<lambda>st2.
              and_then (call_method (gifProcessor st2) Call_next_frame (next_frame eng) st2)
                (\<lambda>st3. (None, st3\<lparr>lastFrameTime := ts\<rparr>)))
          = exporting b (and_then (updatePreview eng s) (\<lambda>st2.
              and_then (call_method (gifProcessor st2) Call_next_frame (next_frame eng) st2)
                (\<lambda>st3. (None, st3\<lparr>lastFrameTime := ts\<rparr>))))"
    unfolding updatePreview_exporting by (rule and_then_exporting) (rule n)
  show ?thesis
    unfolding advance_preview_def render_preview_exporting
    by (rule and_then_exporting) (rule u)
qed

lemma advance_processed_exporting:
  "advance_processed eng ts (st\<lparr>isProcessing := b\<rparr>) = exporting b (advance_processed eng ts st)"
proof -
  have n: "\<And>s. and_then (call_method (processedGifProcessor (s\<lparr>isProcessing := b\<rparr>)) Call_next_frame
                           (next_frame eng) (s\<lparr>isProcessing := b\<rparr>))
              (\<lambda>st3. (None, st3\<lparr>lastProcessedFrameTime := ts\<rparr>))
          = exporting b (and_then (call_method (processedGifProcessor s) Call_next_frame
                                     (next_frame eng) s)
              (\<lambda>st3. (None, st3\<lparr>lastProcessedFrameTime := ts\<rparr>)))"
    by (simp add: call_method_exporting and_then_exporting)
  show ?thesis
    unfolding advance_processed_def render_processed_exporting
    by (rule and_then_exporting) (rule n)
qed

lemma animate_exporting:
  "animate eng ts (st\<lparr>isProcessing := b\<rparr>) = exporting b (animate eng ts st)"
proof -
  have aq: "after_query (st\<lparr>isProcessing := b\<rparr>) ts = (after_query st ts)\<lparr>isProcessing := b\<rparr>"
    by (simp add: after_query_def log_call_def)
  have e: "\<And>s. (None :: exn option, s\<lparr>isProcessing := b\<rparr>) = exporting b (None, s)" by simp
  show ?thesis
    unfolding animate_unfold
    by (simp add: aq advance_preview_exporting and_then_exporting schedule_exporting e
        del: exporting_pair split: option.splits sum.splits)
      (auto simp: exporting_def)
qed

lemma animateProcessed_exporting:
  "animateProcessed eng ts (st\<lparr>isProcessing := b\<rparr>) = exporting b (animateProcessed eng ts st)"
proof -
  have aq: "after_query_processed (st\<lparr>isProcessing := b\<rparr>) ts =
              (after_query_processed st ts)\<lparr>isProcessing := b\<rparr>"
    by (simp add: after_query_processed_def log_call_def)
  have e: "\<And>s. (None :: exn option, s\<lparr>isProcessing := b\<rparr>) = exporting b (None, s)" by simp
  show ?thesis
    unfolding animateProcessed_unfold
    by (simp add: aq advance_processed_exporting and_then_exporting schedule_exporting e
        del: exporting_pair split: option.splits sum.splits)
      (auto simp: exporting_def)
qed

lemma click_keeps_frames:
  "pending (click_begin eng st) \<noteq> None \<Longrightarrow> pending st = None \<Longrightarrow>
     raf_queue (click_begin eng st) = raf_queue st"
  by (auto simp: click_begin_def initWorker_def call_query_def log_call_def Let_def click_catch_def
      split: option.splits sum.splits if_splits)

subsection \<open>Ticks of the two callbacks\<close>

lemma and_then_ok:
  assumes "\<And>s. fst (g s) = None \<Longrightarrow> P (snd (g s))" and "fst (and_then r g) = None"
  shows "P (snd (and_then r g))"
  using assms by (cases r; cases "fst r") (auto simp: and_then_def)

lemma advance_preview_stamp:
  assumes "fst (advance_preview eng ts st) = None"
  shows "lastFrameTime (snd (advance_preview eng ts st)) = ts"
  using assms unfolding advance_preview_def
  by (elim and_then_ok[rotated]) simp

lemma advance_processed_stamp:
  assumes "fst (advance_processed eng ts st) = None"
  shows "lastProcessedFrameTime (snd (advance_processed eng ts st)) = ts"
  using assms unfolding advance_processed_def
  by (elim and_then_ok[rotated]) simp

lemma after_query_simps [simp]:
  "store (after_query st ts) = store st"
  "calls (after_query st ts) = calls st @ [(gifProcessor st, Call_get_frame_delay)]"
  "store (after_query_processed st ts) = store st"
  "calls (after_query_processed st ts) = calls st @ [(processedGifProcessor st, Call_get_frame_delay)]"
  "lastFrameTime (after_query st ts) = (if lastFrameTime st = 0 then ts else lastFrameTime st)"
  "lastProcessedFrameTime (after_query_processed st ts) =
     (if lastProcessedFrameTime st = 0 then ts else lastProcessedFrameTime st)"
  by (simp_all add: after_query_def after_query_processed_def log_call_def)

lemma schedule_simps [simp]:
  "store (schedule cb st) = store st"
  "calls (schedule cb st) = calls st"
  "lastFrameTime (schedule cb st) = lastFrameTime st"
  "lastProcessedFrameTime (schedule cb st) = lastProcessedFrameTime st"
  by (cases cb; simp add: schedule.simps requestAnimationFrame_def)+

lemma animate_idle:
  assumes "\<not> delay_elapsed eng (gifProcessor st) (lastFrameTime st) ts st"
  shows "store (snd (animate eng ts st)) = store st"
    and "set (new_calls st (snd (animate eng ts st))) \<subseteq> {(gifProcessor st, Call_get_frame_delay)}"
    and "lastFrameTime (snd (animate eng ts st)) = (if lastFrameTime st = 0 then ts else lastFrameTime st)"
  using assms
  by (auto simp: animate_unfold delay_elapsed_def new_calls_def
      split: option.splits sum.splits prod.splits)

lemma animateProcessed_idle:
  assumes "\<not> delay_elapsed eng (processedGifProcessor st) (lastProcessedFrameTime st) ts st"
  shows "store (snd (animateProcessed eng ts st)) = store st"
    and "set (new_calls st (snd (animateProcessed eng ts st)))
           \<subseteq> {(processedGifProcessor st, Call_get_frame_delay)}"
    and "lastProcessedFrameTime (snd (animateProcessed eng ts st)) =
           (if lastProcessedFrameTime st = 0 then ts else lastProcessedFrameTime st)"
  using assms
  by (auto simp: animateProcessed_unfold delay_elapsed_def new_calls_def
      split: option.splits sum.splits prod.splits)

text \<open>A tick that advances, and does not throw, leaves its timestamp in
  \<^verbatim>\<open>lastFrameTime\<close>: that variable is the time of the previous advance (or of the first
  tick, before any advance).\<close>

lemma animate_advance:
  assumes "delay_elapsed eng (gifProcessor st) (lastFrameTime st) ts st"
    and "fst (animate eng ts st) = None"
  shows "lastFrameTime (snd (animate eng ts st)) = ts"
proof -
  from assms(1) obtain p d where p: "store st (gifProcessor st) = Some p"
    and d: "get_frame_delay eng p = Inr d"
    and e: "lastFrameTime st \<noteq> 0 \<and> ts - lastFrameTime st > real d * 10"
    by (auto simp: delay_elapsed_def split: option.splits sum.splits)
  have a: "animate eng ts st =
             and_then (advance_preview eng ts (after_query st ts)) (\<lambda>st3. (None, schedule Animate st3))"
    using p d e by (simp add: animate_unfold)
  with assms(2) obtain s where s: "advance_preview eng ts (after_query st ts) = (None, s)"
    by (cases "advance_preview eng ts (after_query st ts)";
        cases "fst (advance_preview eng ts (after_query st ts))")
       (auto simp: and_then_def)
  then have "lastFrameTime s = ts"
    using advance_preview_stamp[of eng ts "after_query st ts"] by simp
  with a s show ?thesis by simp
qed

lemma animateProcessed_advance:
  assumes "delay_elapsed eng (processedGifProcessor st) (lastProcessedFrameTime st) ts st"
    and "processedGifData st \<noteq> None"
    and "fst (animateProcessed eng ts st) = None"
  shows "lastProcessedFrameTime (snd (animateProcessed eng ts st)) = ts"
proof -
  from assms(1) obtain p d where p: "store st (processedGifProcessor st) = Some p"
    and d: "get_frame_delay eng p = Inr d"
    and e: "lastProcessedFrameTime st \<noteq> 0 \<and> ts - lastProcessedFrameTime st > real d * 10"
    by (auto simp: delay_elapsed_def split: option.splits sum.splits)
  have a: "animateProcessed eng ts st =
             and_then (advance_processed eng ts (after_query_processed st ts))
               (\<lambda>st3. (None, schedule AnimateProcessed st3))"
    using p d e assms(2) by (simp add: animateProcessed_unfold)
  with assms(3) obtain s where
    s: "advance_processed eng ts (after_query_processed st ts) = (None, s)"
    by (cases "advance_processed eng ts (after_query_processed st ts)";
        cases "fst (advance_processed eng ts (after_query_processed st ts))")
       (auto simp: and_then_def)
  then have "lastProcessedFrameTime s = ts"
    using advance_processed_stamp[of eng ts "after_query_processed st ts"] by simp
  with a s show ?thesis by simp
qed

text \<open>A tick that advances, and does not throw, has drawn the current frame and
  moved the cursor.\<close>

lemma render_preview_ok:
  "render_preview eng st = (None, s1) \<Longrightarrow>
   calls s1 = calls st @ [(gifProcessor st, Call_render_current_frame)] \<and>
   gifProcessor s1 = gifProcessor st"
  by (auto simp: render_preview_def log_call_def Let_def split: option.splits prod.splits)

lemma updatePreview_calls:
  "\<exists>cs. calls (snd (updatePreview eng st)) = calls st @ cs \<and>
        gifProcessor (snd (updatePreview eng st)) = gifProcessor st"
  by (auto simp: updatePreview_def call_query_def log_call_def Let_def
      split: option.splits sum.splits prod.splits)

lemma call_method_ok:
  "call_method a c f st = (None, s1) \<Longrightarrow> calls s1 = calls st @ [(a, c)]"
  by (auto simp: call_method_def log_call_def Let_def split: option.splits prod.splits)

lemma advance_preview_calls:
  assumes "fst (advance_preview eng ts st) = None"
  shows "\<exists>cs. calls (snd (advance_preview eng ts st)) =
           calls st @ (gifProcessor st, Call_render_current_frame) # cs @
           [(gifProcessor st, Call_next_frame)]"
proof -
  obtain x1 s1 where r: "render_preview eng st = (x1, s1)" by (cases "render_preview eng st")
  with assms have x1: "x1 = None" by (cases x1) (auto simp: advance_preview_def)
  note a = render_preview_ok[OF r[unfolded x1]]
  obtain x2 s2 where u: "updatePreview eng s1 = (x2, s2)" by (cases "updatePreview eng s1")
  with assms r x1 have x2: "x2 = None" by (cases x2) (auto simp: advance_preview_def)
  from updatePreview_calls[of eng s1] u obtain cs where
    b: "calls s2 = calls s1 @ cs" "gifProcessor s2 = gifProcessor s1" by auto
  obtain x3 s3 where n: "call_method (gifProcessor s2) Call_next_frame (next_frame eng) s2 = (x3, s3)"
    by (cases "call_method (gifProcessor s2) Call_next_frame (next_frame eng) s2")
  with assms r x1 u x2 have x3: "x3 = None" by (cases x3) (auto simp: advance_preview_def)
  note c = call_method_ok[OF n[unfolded x3]]
  have "snd (advance_preview eng ts st) = s3\<lparr>lastFrameTime := ts\<rparr>"
    using r x1 u x2 n x3 by (simp add: advance_preview_def)
  then show ?thesis using a b c by simp
qed

lemma animate_advance_calls:
  assumes "delay_elapsed eng (gifProcessor st) (lastFrameTime st) ts st"
    and "fst (animate eng ts st) = None"
  shows "(gifProcessor st, Call_render_current_frame) \<in> set (new_calls st (snd (animate eng ts st)))"
    and "(gifProcessor st, Call_next_frame) \<in> set (new_calls st (snd (animate eng ts st)))"
proof -
  from assms(1) obtain p d where p: "store st (gifProcessor st) = Some p"
    and d: "get_frame_delay eng p = Inr d"
    and e: "lastFrameTime st \<noteq> 0 \<and> ts - lastFrameTime st > real d * 10"
    by (auto simp: delay_elapsed_def split: option.splits sum.splits)
  have a: "animate eng ts st =
             and_then (advance_preview eng ts (after_query st ts)) (\<lambda>st3. (None, schedule Animate st3))"
    using p d e by (simp add: animate_unfold)
  with assms(2) obtain s where s: "advance_preview eng ts (after_query st ts) = (None, s)"
    by (cases "advance_preview eng ts (after_query st ts)";
        cases "fst (advance_preview eng ts (after_query st ts))")
       (auto simp: and_then_def)
  have g: "gifProcessor (after_query st ts) = gifProcessor st"
    by (simp add: after_query_def log_call_def)
  from advance_preview_calls[of eng ts "after_query st ts"] s g obtain cs where
    "calls s = calls st @ (gifProcessor st, Call_get_frame_delay) #
                 (gifProcessor st, Call_render_current_frame) # cs @
                 [(gifProcessor st, Call_next_frame)]"
    by auto
  then have n: "new_calls st (snd (animate eng ts st)) =
                  (gifProcessor st, Call_get_frame_delay) #
                  (gifProcessor st, Call_render_current_frame) # cs @
                  [(gifProcessor st, Call_next_frame)]"
    using a s by (simp add: new_calls_def)
  show "(gifProcessor st, Call_render_current_frame) \<in> set (new_calls st (snd (animate eng ts st)))"
    and "(gifProcessor st, Call_next_frame) \<in> set (new_calls st (snd (animate eng ts st)))"
    unfolding n by simp_all
qed

lemma raf_startAnimation:
  "\<not> isProcessing st \<Longrightarrow>
   animationFrameId (startAnimation st) = Some (raf_next st) \<and>
   processedAnimationFrameId (startAnimation st) = Some (raf_next st + 1) \<and>
   raf_queue (startAnimation st) =
     raf_queue (cancel_if_set (processedAnimationFrameId st) (cancel_if_set (animationFrameId st) st))
       @ [(raf_next st, Animate), (raf_next st + 1, AnimateProcessed)]"
  by (simp add: startAnimation_def schedule.simps requestAnimationFrame_def
      cancelAnimationFrame_def cancel_if_set_def Let_def split: prod.splits)

subsection \<open>The engine of the specification in the worker\<close>

lemma spec_case_posted:
  "w_gifProcessor w = Some p \<Longrightarrow>
   w_posted (process_gif_case (spec_engine core) w d) =
     w_posted w @ [relay (export_with_caption core (gifData d) (textData d))]"
  by (simp add: process_gif_case_def spec_engine_def export_with_caption_def postMessage_def
      w_call_def Let_def split: sum.splits)

lemma spec_onmessage_posted:
  assumes "req_type m = ''process_gif''" and "w_gifProcessor w \<noteq> None \<or> ir = None"
  shows "w_posted (snd (onmessage (spec_engine core) ir w m)) = w_posted w @ [export_of core m]"
    and "w_gifProcessor (snd (onmessage (spec_engine core) ir w m)) \<noteq> None"
proof -
  show "w_posted (snd (onmessage (spec_engine core) ir w m)) = w_posted w @ [export_of core m]"
    using assms
    by (auto simp: onmessage_def ensure_init_cases dispatch_def spec_case_posted export_of_def
        w_call_def split: option.splits)
  show "w_gifProcessor (snd (onmessage (spec_engine core) ir w m)) \<noteq> None"
    using assms(2)
    by (auto simp: onmessage_def ensure_init_cases w_call_def split: option.splits
        intro!: dispatch_keeps)
qed

lemma spec_run_posted:
  assumes "list_all (\<lambda>m. req_type m = ''process_gif'') ms"
    and "w_gifProcessor w \<noteq> None \<or> ir = None"
  shows "w_posted (worker_run (spec_engine core) w (map (Pair ir) ms)) =
           w_posted w @ map (export_of core) ms"
  using assms
proof (induction ms arbitrary: w)
  case Nil
  then show ?case by simp
next
  case (Cons m ms)
  have t: "req_type m = ''process_gif''" and r: "list_all (\<lambda>m. req_type m = ''process_gif'') ms"
    using Cons.prems(1) by simp_all
  note s = spec_onmessage_posted[OF t Cons.prems(2), of core]
  have "w_gifProcessor (snd (onmessage (spec_engine core) ir w m)) \<noteq> None \<or> ir = None"
    using s(2) by simp
  from Cons.IH[OF r this] s(1) show ?case by simp
qed

lemma click_posts:
  assumes "currentFile st = Some f" "\<not> isProcessing st" "store st (gifProcessor st) = Some p"
    and "prepare_text_overlay eng p (export_args st) = Inr t"
  shows "pending (click_begin eng st) = Some (t, f)"
    and "outbox (click_finish None (click_begin eng st)) = outbox st @ [export_request f t]"
    and "worker (click_begin eng st)"
proof -
  have a: "export_args (st\<lparr>isProcessing := True, processButton_disabled := True,
                          processButton_text := ''Processing...''\<rparr>) = export_args st"
    by (simp add: export_args_def)
  show 1: "pending (click_begin eng st) = Some (t, f)"
    using assms
    by (simp add: click_begin_def initWorker_def call_query_def log_call_def Let_def a)
  show 2: "worker (click_begin eng st)"
    using assms
    by (simp add: click_begin_def initWorker_def call_query_def log_call_def Let_def a)
  show "outbox (click_finish None (click_begin eng st)) = outbox st @ [export_request f t]"
    using 1 2 by (simp add: click_finish_def)
qed

text \<open>An export from a page that is not exporting: the click, the read of the file and
  the delivery of the request.\<close>

lemma export_reaches_worker:
  assumes ch: "channels_ok s"
    and f: "currentFile (sys_page s) = Some f" and np: "\<not> isProcessing (sys_page s)"
    and p: "store (sys_page s) (gifProcessor (sys_page s)) = Some p"
    and t: "prepare_text_overlay eng p (export_args (sys_page s)) = Inr t"
    and w: "w_gifProcessor (sys_worker s) \<noteq> None \<or> ir = None"
    and g: "fst (process_gif eng (file_bytes f)
                  (case w_gifProcessor (sys_worker s) of Some q \<Rightarrow> q
                   | None \<Rightarrow> new_GifProcessor eng)) = None"
  shows "worker (sys_page (run eng [Click, Click_read None] s))"
    and "outbox (sys_page (run eng [Click, Click_read None] s)) =
           outbox (sys_page s) @ [export_request f t]"
    and "raf_queue (sys_page (run eng [Click, Click_read None] s)) = raf_queue (sys_page s)"
    and "isProcessing (sys_page (run eng [Click, Click_read None] s))"
    and "sys_page (run eng [Click, Click_read None, Deliver_to_worker ir] s) =
           sys_page (run eng [Click, Click_read None] s)"
    and "w_calls (sys_worker (run eng [Click, Click_read None, Deliver_to_worker ir] s)) =
           w_calls (sys_worker s) @
           (if w_gifProcessor (sys_worker s) = None then [Call_init, Call_new] else []) @
           [Call_process_gif (file_bytes f), Call_process_all_frames t]"
proof -
  let ?st = "sys_page s"
  note cp = click_posts[OF f np p t]
  note nb = idle_no_backlog[OF ch np]
  have pe: "pending (click_begin eng ?st) \<noteq> None" using cp(1) by simp
  have q: "raf_queue (click_begin eng ?st) = raf_queue ?st"
    using click_keeps_frames[OF pe nb(2)] .
  have ip: "isProcessing (click_begin eng ?st)"
    using click_begin_flags[OF np nb(2), of eng] pe by auto
  have fin: "click_finish None (click_begin eng ?st) =
        (click_begin eng ?st)\<lparr>pending := None, outbox := outbox ?st @ [export_request f t]\<rparr>"
    using cp by (simp add: click_finish_def)
  show 1: "worker (sys_page (run eng [Click, Click_read None] s))"
    using cp(3) by (simp add: fin)
  show 2: "outbox (sys_page (run eng [Click, Click_read None] s)) =
           outbox (sys_page s) @ [export_request f t]"
    by (simp add: fin)
  show "raf_queue (sys_page (run eng [Click, Click_read None] s)) = raf_queue (sys_page s)"
    using q by (simp add: fin)
  show "isProcessing (sys_page (run eng [Click, Click_read None] s))"
    using ip by (simp add: fin)
  show "sys_page (run eng [Click, Click_read None, Deliver_to_worker ir] s) =
           sys_page (run eng [Click, Click_read None] s)"
    by simp
  show "w_calls (sys_worker (run eng [Click, Click_read None, Deliver_to_worker ir] s)) =
           w_calls (sys_worker s) @
           (if w_gifProcessor (sys_worker s) = None then [Call_init, Call_new] else []) @
           [Call_process_gif (file_bytes f), Call_process_all_frames t]"
    using nb(1) onmessage_export_calls[OF w g, of t] by (simp add: fin)
qed

subsection \<open>Two runs of the two threads\<close>

lemmas model_defs = system0_def page0_def worker0_def new_object_def demo_engine_def demo_file_def
  handleFile_begin_def handleFile_loaded_def handleFile_catch_def click_begin_def click_finish_def
  click_catch_def export_args_def export_request_def initWorker_def call_query_def call_method_def
  log_call_def startAnimation_def schedule.simps requestAnimationFrame_def cancelAnimationFrame_def
  cancel_if_set_def onmessage_def ensure_init_def initWasm_def dispatch_def process_gif_case_def
  w_call_def postMessage_def page_onmessage_def in_flight_def parseInt_def blank_canvas_def

text \<open>An export that succeeds: a file is chosen and read, the button clicked, the request
  delivered and the reply received.\<close>

lemma run_export:
  "in_flight (run demo_engine [Choose_file demo_file, File_read [71, 73, 70], Click, Click_read None]
                (system0 demo_engine)) = 1 \<and>
   in_flight (run demo_engine
       [Choose_file demo_file, File_read [71, 73, 70], Click, Click_read None,
        Deliver_to_worker None, Deliver_to_page] (system0 demo_engine)) = 0 \<and>
   processedGifData (sys_page (run demo_engine
       [Choose_file demo_file, File_read [71, 73, 70], Click, Click_read None,
        Deliver_to_worker None, Deliver_to_page] (system0 demo_engine))) = Some [71, 73, 70, 0] \<and>
   isProcessing (sys_page (run demo_engine
       [Choose_file demo_file, File_read [71, 73, 70], Click, Click_read None,
        Deliver_to_worker None, Deliver_to_page] (system0 demo_engine))) = False"
  by (simp add: model_defs Let_def)

text \<open>An export during which \<^verbatim>\<open>init()\<close> rejects in the worker: nothing is posted, and
  the page stays as the click left it, \<^verbatim>\<open>isProcessing\<close> set and the button reading
  \<^verbatim>\<open>Processing...\<close>, a further click doing nothing.\<close>

lemma run_init_failure:
  "w_posted (sys_worker (run demo_engine
       [Choose_file demo_file, Click, Click_read None, Deliver_to_worker (Some (Exn ''CompileError'')),
        Deliver_to_page, Click, Click_read None] (system0 demo_engine))) = [] \<and>
   isProcessing (sys_page (run demo_engine
       [Choose_file demo_file, Click, Click_read None, Deliver_to_worker (Some (Exn ''CompileError'')),
        Deliver_to_page, Click, Click_read None] (system0 demo_engine))) = True \<and>
   processButton_text (sys_page (run demo_engine
       [Choose_file demo_file, Click, Click_read None, Deliver_to_worker (Some (Exn ''CompileError'')),
        Deliver_to_page, Click, Click_read None] (system0 demo_engine))) = ''Processing...''"
  by (simp add: model_defs Let_def)

section \<open>The claims\<close>

subsection \<open>The worker's replies\<close>

text \<open>
  Claim C1. For every \<^verbatim>\<open>process_gif\<close> message the worker is to reply with exactly one
  message, the exported bytes or the error as a string. The \<^verbatim>\<open>try\<close>/\<^verbatim>\<open>catch\<close> of
  lines 22 to 28 does so for the two engine calls (\<open>onmessage_replies_once\<close>), but the
  initialisation of lines 14 to 16 is outside it: on a first message during which
  \<^verbatim>\<open>init()\<close> rejects, the handler's promise rejects with that error and nothing is
  posted, so the page, which waits for a reply to reset its state, never gets one.
\<close>

theorem worker_init_failure_posts_nothing:
  "fst (onmessage demo_engine (Some (Exn ''CompileError'')) worker0 demo_request)
     = Some (Exn ''CompileError'') \<and>
   w_posted (snd (onmessage demo_engine (Some (Exn ''CompileError'')) worker0 demo_request)) = []"
  by (simp add: onmessage_def ensure_init_cases worker0_def w_call_def)

text \<open>
  Claim C10. The worker initialises its engine lazily and at most once. In every state the
  two threads reach, the worker's trace is that of a lazy, single initialisation: nothing
  is called before the first message is delivered; \<^verbatim>\<open>init()\<close> is called once, during
  the first message, and the processor constructed at most once, right after it; from then
  on no event, a further delivery included, calls \<^verbatim>\<open>init()\<close> or the constructor
  again. In the handler, a message that finds a processor initialises nothing, one that
  finds none calls \<^verbatim>\<open>init()\<close> and, when it succeeds, the constructor; the
  \<^verbatim>\<open>switch\<close> is reached only with a processor in place, and when \<^verbatim>\<open>init()\<close>
  fails the handler calls no method of the engine. The messages are those the page sends:
  it has at most one request without its reply, so a message is delivered only after the
  handler of the one before has ended.
\<close>

theorem worker_inits_once_on_first_message:
  "(let s = run eng evs (system0 eng) in
      lazy_trace (w_calls (sys_worker s)) \<and>
      init_calls (sys_worker s) \<le> 1 \<and>
      constructions (sys_worker s) \<le> 1 \<and>
      (to_worker s = 0 \<longrightarrow> w_calls (sys_worker s) = [] \<and> w_gifProcessor (sys_worker s) = None) \<and>
      (0 < to_worker s \<longrightarrow>
         init_calls (sys_worker s) = 1 \<and>
         init_calls (sys_worker (step eng ev s)) = 1 \<and>
         constructions (sys_worker (step eng ev s)) = constructions (sys_worker s)) \<and>
      (to_worker s < length (outbox (sys_page s)) \<longrightarrow>
         length (outbox (sys_page s)) = to_worker s + 1 \<and>
         length (w_posted (sys_worker s)) = to_worker s \<and>
         to_page s = to_worker s) \<and>
      (length (outbox (sys_page s)) = to_page s + 1 \<and> ev \<noteq> Deliver_to_page \<longrightarrow>
         outbox (sys_page (step eng ev s)) = outbox (sys_page s))) \<and>
   (w_gifProcessor w \<noteq> None \<longrightarrow> ensure_init eng ir w = (None, w)) \<and>
   (w_gifProcessor w = None \<longrightarrow>
      w_calls (snd (ensure_init eng ir w)) =
        w_calls w @ Call_init # (if ir = None then [Call_new] else [])) \<and>
   (fst (ensure_init eng ir w) = None \<longrightarrow>
      w_gifProcessor (snd (ensure_init eng ir w)) \<noteq> None \<and>
      onmessage eng ir w m = (None, dispatch eng (snd (ensure_init eng ir w)) m)) \<and>
   (fst (ensure_init eng ir w) \<noteq> None \<longrightarrow>
      w_calls (snd (onmessage eng ir w m)) = w_calls w @ [Call_init])"
proof -
  define s where "s = run eng evs (system0 eng)"
  have ch: "channels_ok s" unfolding s_def by (rule channels_ok_run) (rule channels_ok_system0)
  have ok: "init_ok s" unfolding s_def
    by (rule init_ok_run) (rule channels_ok_system0, rule init_ok_system0)
  have ok': "init_ok (step eng ev s)" using ch ok by (rule init_ok_step)
  note shape = init_ok_shape
  have tw: "to_worker s \<le> to_worker (step eng ev s)"
    by (cases ev) (simp_all split: option.splits)
  have keep: "(w_gifProcessor (sys_worker (step eng ev s)) = None) =
                (w_gifProcessor (sys_worker s) = None)" if pos: "0 < to_worker s"
  proof (cases ev)
    case (Deliver_to_worker ir')
    show ?thesis
    proof (cases "w_gifProcessor (sys_worker s) = None")
      case True
      from stuck_after_failed_init[OF ch ok pos True] Deliver_to_worker show ?thesis by simp
    next
      case False
      from onmessage_later(2)[OF False, of eng ir' "outbox (sys_page s) ! to_worker s"]
        False Deliver_to_worker show ?thesis by auto
    qed
  qed (simp_all split: option.splits)
  have a: "lazy_trace (w_calls (sys_worker s)) \<and>
      init_calls (sys_worker s) \<le> 1 \<and>
      constructions (sys_worker s) \<le> 1 \<and>
      (to_worker s = 0 \<longrightarrow> w_calls (sys_worker s) = [] \<and> w_gifProcessor (sys_worker s) = None) \<and>
      (0 < to_worker s \<longrightarrow>
         init_calls (sys_worker s) = 1 \<and>
         init_calls (sys_worker (step eng ev s)) = 1 \<and>
         constructions (sys_worker (step eng ev s)) = constructions (sys_worker s))"
    using shape[OF ok] shape[OF ok'] tw keep ok by (auto simp: init_ok_def)
  have a': "(to_worker s < length (outbox (sys_page s)) \<longrightarrow>
         length (outbox (sys_page s)) = to_worker s + 1 \<and>
         length (w_posted (sys_worker s)) = to_worker s \<and>
         to_page s = to_worker s) \<and>
      (length (outbox (sys_page s)) = to_page s + 1 \<and> ev \<noteq> Deliver_to_page \<longrightarrow>
         outbox (sys_page (step eng ev s)) = outbox (sys_page s))"
    using delivery_is_last[OF ch] page_waits[OF ch, of ev eng] by auto
  have b: "w_gifProcessor w \<noteq> None \<longrightarrow> ensure_init eng ir w = (None, w)"
    by (simp add: ensure_init_def)
  have c: "w_gifProcessor w = None \<longrightarrow>
      w_calls (snd (ensure_init eng ir w)) =
        w_calls w @ Call_init # (if ir = None then [Call_new] else [])"
    by (auto simp: ensure_init_cases w_call_def split: option.splits)
  have d: "fst (ensure_init eng ir w) = None \<longrightarrow>
      w_gifProcessor (snd (ensure_init eng ir w)) \<noteq> None \<and>
      onmessage eng ir w m = (None, dispatch eng (snd (ensure_init eng ir w)) m)"
    by (auto simp: onmessage_def ensure_init_cases split: option.splits)
  have e: "fst (ensure_init eng ir w) \<noteq> None \<longrightarrow>
      w_calls (snd (onmessage eng ir w m)) = w_calls w @ [Call_init]"
    by (auto simp: onmessage_def ensure_init_cases w_call_def split: option.splits)
  from a a' b c d e show ?thesis unfolding Let_def s_def by blast
qed

theorem worker_inits_once_on_first_message_witness:
  "0 < to_worker (run demo_engine
         [Choose_file demo_file, Click, Click_read None, Deliver_to_worker None, Deliver_to_page,
          Click, Click_read None] (system0 demo_engine)) \<and>
   init_calls (sys_worker (step demo_engine (Deliver_to_worker None) (run demo_engine
         [Choose_file demo_file, Click, Click_read None, Deliver_to_worker None, Deliver_to_page,
          Click, Click_read None] (system0 demo_engine)))) = 1 \<and>
   constructions (sys_worker (step demo_engine (Deliver_to_worker None) (run demo_engine
         [Choose_file demo_file, Click, Click_read None, Deliver_to_worker None, Deliver_to_page,
          Click, Click_read None] (system0 demo_engine)))) = 1 \<and>
   w_gifProcessor (worker0 :: (bytes \<times> nat, 8 word) worker) = None \<and>
   w_calls (snd (ensure_init demo_engine None (worker0 :: (bytes \<times> nat, 8 word) worker)))
     = [Call_init, Call_new] \<and>
   fst (ensure_init demo_engine (Some (Exn ''CompileError'')) (worker0 :: (bytes \<times> nat, 8 word) worker))
     \<noteq> None \<and>
   w_calls (snd (onmessage demo_engine (Some (Exn ''CompileError'')) worker0 demo_request))
     = [Call_init] \<and>
   to_worker (run demo_engine [Choose_file demo_file, Click, Click_read None] (system0 demo_engine))
     < length (outbox (sys_page (run demo_engine [Choose_file demo_file, Click, Click_read None]
                                   (system0 demo_engine)))) \<and>
   outbox (sys_page (step demo_engine Click
             (run demo_engine [Choose_file demo_file, Click, Click_read None] (system0 demo_engine))))
     = [export_request demo_file 0]"
proof -
  have h: "0 < to_worker (run demo_engine
         [Choose_file demo_file, Click, Click_read None, Deliver_to_worker None, Deliver_to_page,
          Click, Click_read None] (system0 demo_engine))"
    "constructions (sys_worker (run demo_engine
         [Choose_file demo_file, Click, Click_read None, Deliver_to_worker None, Deliver_to_page,
          Click, Click_read None] (system0 demo_engine))) = 1"
    by (simp_all add: model_defs Let_def constructions_def)
  have g: "w_gifProcessor (worker0 :: (bytes \<times> nat, 8 word) worker) = None"
    "fst (ensure_init demo_engine (Some (Exn ''CompileError''))
            (worker0 :: (bytes \<times> nat, 8 word) worker)) \<noteq> None"
    "w_calls (worker0 :: (bytes \<times> nat, 8 word) worker) = []"
    by (simp_all add: worker0_def ensure_init_def initWasm_def Let_def)
  have k: "to_worker (run demo_engine [Choose_file demo_file, Click, Click_read None]
                        (system0 demo_engine)) = 0"
    "to_page (run demo_engine [Choose_file demo_file, Click, Click_read None]
                (system0 demo_engine)) = 0"
    "outbox (sys_page (run demo_engine [Choose_file demo_file, Click, Click_read None]
                         (system0 demo_engine))) = [export_request demo_file 0]"
    "Click \<noteq> Deliver_to_page"
    by (simp_all add: model_defs Let_def)
  show ?thesis
    using worker_inits_once_on_first_message[where eng = demo_engine and ev = "Deliver_to_worker None"
        and evs = "[Choose_file demo_file, Click, Click_read None, Deliver_to_worker None,
                    Deliver_to_page, Click, Click_read None]"
        and w = worker0 and ir = None and m = demo_request]
      worker_inits_once_on_first_message[where eng = demo_engine and ev = "Deliver_to_worker None"
        and evs = "[]" and w = worker0 and ir = "Some (Exn ''CompileError'')" and m = demo_request]
      worker_inits_once_on_first_message[where eng = demo_engine and ev = Click
        and evs = "[Choose_file demo_file, Click, Click_read None]"
        and w = worker0 and ir = None and m = demo_request]
      h g k
    by (simp add: Let_def del: run.simps step.simps)
qed

text \<open>
  Claim C4. Over the engine of the specification the worker's protocol, a load followed by
  the batch call on the worker's one processor, is the single operation
  \<^verbatim>\<open>export_with_caption(bytes, CaptionSpec)\<close>: whatever state earlier requests left the
  processor in, the replies to a sequence of \<^verbatim>\<open>process_gif\<close> requests are the results of
  \<open>export_with_caption\<close> on their payloads, one each and in order, an error result as the
  message \<^verbatim>\<open>error\<close> with the error's string.
\<close>

theorem worker_protocol_is_export_with_caption:
  assumes "list_all (\<lambda>m. req_type m = ''process_gif'') ms"
    and "w_gifProcessor w \<noteq> None \<or> ir = None"
  shows "w_posted (worker_run (spec_engine core) w (map (Pair ir) ms)) =
           w_posted w @
           map (\<lambda>m. relay (export_with_caption core (gifData (req_data m)) (textData (req_data m)))) ms"
  using spec_run_posted[OF assms, of core] by (simp add: export_of_def[abs_def])

theorem worker_protocol_is_export_with_caption_witness:
  "list_all (\<lambda>m. req_type m = ''process_gif'') [demo_request, demo_request\<lparr>req_data := \<lparr>gifData = [], textData = 7\<rparr>\<rparr>] \<and>
   w_posted (worker_run (spec_engine demo_core) worker0
              (map (Pair None) [demo_request, demo_request\<lparr>req_data := \<lparr>gifData = [], textData = 7\<rparr>\<rparr>]))
     = [Gif_processed [71, 73, 70, 5], Error ''DecodeError'']"
  using worker_protocol_is_export_with_caption[where core = demo_core and w = worker0
      and ir = None and ms = "[demo_request, demo_request\<lparr>req_data := \<lparr>gifData = [], textData = 7\<rparr>\<rparr>]"]
  by (simp add: demo_request_def demo_core_def export_with_caption_def worker0_def)

subsection \<open>The preview loop\<close>

text \<open>
  Claim C6. The cursor never advances early. In a tick of \<^verbatim>\<open>animate\<close> at which the
  time since \<^verbatim>\<open>lastFrameTime\<close>, the timestamp of the previous advance, does not exceed
  ten times \<^verbatim>\<open>get_frame_delay()\<close>, neither \<^verbatim>\<open>render_current_frame\<close> nor
  \<^verbatim>\<open>next_frame\<close> is called, every processor is left as it was, and \<^verbatim>\<open>lastFrameTime\<close>
  keeps its value (a value of zero, which stands for no advance yet, becomes the tick's
  timestamp). The same holds of \<^verbatim>\<open>animateProcessed\<close> and \<^verbatim>\<open>lastProcessedFrameTime\<close>.
\<close>

theorem preview_never_advances_early:
  "(\<not> delay_elapsed eng (gifProcessor st) (lastFrameTime st) ts st \<longrightarrow>
      store (snd (animate eng ts st)) = store st \<and>
      (\<forall>a. (a, Call_render_current_frame) \<notin> set (new_calls st (snd (animate eng ts st))) \<and>
           (a, Call_next_frame) \<notin> set (new_calls st (snd (animate eng ts st)))) \<and>
      lastFrameTime (snd (animate eng ts st)) = (if lastFrameTime st = 0 then ts else lastFrameTime st)) \<and>
   (\<not> delay_elapsed eng (processedGifProcessor st) (lastProcessedFrameTime st) ts st \<longrightarrow>
      store (snd (animateProcessed eng ts st)) = store st \<and>
      (\<forall>a. (a, Call_render_current_frame) \<notin> set (new_calls st (snd (animateProcessed eng ts st))) \<and>
           (a, Call_next_frame) \<notin> set (new_calls st (snd (animateProcessed eng ts st)))) \<and>
      lastProcessedFrameTime (snd (animateProcessed eng ts st)) =
        (if lastProcessedFrameTime st = 0 then ts else lastProcessedFrameTime st))"
  using animate_idle[of eng st ts] animateProcessed_idle[of eng st ts]
  by auto

theorem preview_never_advances_early_witness:
  "\<not> delay_elapsed demo_engine (gifProcessor demo_page) (lastFrameTime demo_page) 1050 demo_page \<and>
   \<not> delay_elapsed demo_engine (processedGifProcessor demo_page) (lastProcessedFrameTime demo_page)
       1050 demo_page \<and>
   store (snd (animate demo_engine 1050 demo_page)) = store demo_page \<and>
   lastFrameTime (snd (animate demo_engine 1050 demo_page)) = 1000 \<and>
   store (snd (animateProcessed demo_engine 1050 demo_page)) = store demo_page"
  using preview_never_advances_early[where eng = demo_engine and st = demo_page and ts = 1050]
  by (simp add: delay_elapsed_def demo_page_def page0_def new_object_def demo_engine_def Let_def)

subsection \<open>The page's handling of the export\<close>

text \<open>
  Claim C7. When the worker reports an error, the page's handler alerts the user,
  re-enables the process button with the label \<^verbatim>\<open>Process GIF\<close>, clears
  \<^verbatim>\<open>isProcessing\<close> and restarts the animation: the two callbacks requested before, if
  any, are cancelled and two new ones are requested.
\<close>

theorem worker_error_resets_page:
  "fst (page_onmessage eng (Error err) st) = None \<and>
   alerts (snd (page_onmessage eng (Error err) st))
     = alerts st @ [''Error processing GIF. Please try again.''] \<and>
   processButton_disabled (snd (page_onmessage eng (Error err) st)) = False \<and>
   processButton_text (snd (page_onmessage eng (Error err) st)) = ''Process GIF'' \<and>
   isProcessing (snd (page_onmessage eng (Error err) st)) = False \<and>
   animationFrameId (snd (page_onmessage eng (Error err) st)) = Some (raf_next st) \<and>
   processedAnimationFrameId (snd (page_onmessage eng (Error err) st)) = Some (raf_next st + 1) \<and>
   raf_queue (snd (page_onmessage eng (Error err) st)) =
     raf_queue (cancel_if_set (processedAnimationFrameId st) (cancel_if_set (animationFrameId st) st))
       @ [(raf_next st, Animate), (raf_next st + 1, AnimateProcessed)]"
  by (simp add: page_onmessage_def raf_startAnimation cancel_if_set_def cancelAnimationFrame_def)

text \<open>
  Claim C8. A click on the process button while \<^verbatim>\<open>isProcessing\<close> is set, or with no
  file loaded, returns at once: the state is the same, so no message is sent. And in every
  state the two threads reach, at most one request is without its reply.
\<close>

theorem one_export_in_flight:
  "(currentFile st = None \<or> isProcessing st \<longrightarrow> click_begin eng st = st) \<and>
   in_flight (run eng evs (system0 eng)) \<le> 1"
  using channels_ok_run[where eng = eng and evs = evs and s = "system0 eng", OF channels_ok_system0]
  by (auto simp: click_begin_guard in_flight_def channels_ok_def)

theorem one_export_in_flight_witness:
  "isProcessing (demo_page\<lparr>isProcessing := True\<rparr>) \<and>
   click_begin demo_engine (demo_page\<lparr>isProcessing := True\<rparr>) = demo_page\<lparr>isProcessing := True\<rparr> \<and>
   in_flight (run demo_engine [Choose_file demo_file, Click, Click_read None, Click, Click_read None]
                (system0 demo_engine)) \<le> 1"
  using one_export_in_flight[where eng = demo_engine and st = "demo_page\<lparr>isProcessing := True\<rparr>"
      and evs = "[Choose_file demo_file, Click, Click_read None, Click, Click_read None]"]
  by simp

text \<open>
  Claim C2. The preview processor and the processed-preview processor are two objects of
  the page's store, and the worker's processor belongs to the worker: in every reachable
  state the two references differ, the worker's handling of a request leaves the page as it
  was, and a batch export, in any part or as a whole, leaves the reference \<^verbatim>\<open>gifProcessor\<close>
  and the object it refers to (document and cursor) unchanged.
\<close>

theorem export_leaves_preview_engine:
  assumes "list_all is_export export_evs"
  shows "gifProcessor (sys_page (run eng evs (system0 eng)))
           \<noteq> processedGifProcessor (sys_page (run eng evs (system0 eng))) \<and>
         gifProcessor (sys_page (run eng export_evs (run eng evs (system0 eng))))
           = gifProcessor (sys_page (run eng evs (system0 eng))) \<and>
         store (sys_page (run eng export_evs (run eng evs (system0 eng))))
             (gifProcessor (sys_page (run eng evs (system0 eng))))
           = store (sys_page (run eng evs (system0 eng)))
               (gifProcessor (sys_page (run eng evs (system0 eng)))) \<and>
         sys_page (step eng (Deliver_to_worker ir) (run eng evs (system0 eng)))
           = sys_page (run eng evs (system0 eng))"
proof -
  have ok: "refs_ok (sys_page (run eng evs (system0 eng)))"
    by (rule refs_ok_run) (simp add: system0_def refs_ok_page0)
  from export_run_preview[OF ok assms, of eng] ok show ?thesis
    by (simp add: refs_ok_def)
qed

theorem export_leaves_preview_engine_witness:
  "list_all is_export [Click, Click_read None, Deliver_to_worker None, Deliver_to_page] \<and>
   store (sys_page (run demo_engine [Click, Click_read None, Deliver_to_worker None, Deliver_to_page]
                      (run demo_engine [Choose_file demo_file, File_read [71, 73, 70]]
                         (system0 demo_engine))))
           (gifProcessor (sys_page (run demo_engine [Choose_file demo_file, File_read [71, 73, 70]]
                                      (system0 demo_engine))))
     = store (sys_page (run demo_engine [Choose_file demo_file, File_read [71, 73, 70]]
                          (system0 demo_engine)))
         (gifProcessor (sys_page (run demo_engine [Choose_file demo_file, File_read [71, 73, 70]]
                                    (system0 demo_engine))))"
  using export_leaves_preview_engine[where eng = demo_engine
      and export_evs = "[Click, Click_read None, Deliver_to_worker None, Deliver_to_page]"
      and evs = "[Choose_file demo_file, File_read [71, 73, 70]]"]
  by simp

text \<open>
  Claim C3. The caption data crosses untouched. When \<^verbatim>\<open>prepare_text_overlay\<close> returns
  \<open>t\<close> in the click handler, the message the page posts carries \<open>t\<close> as its
  \<^verbatim>\<open>textData\<close>, and on that message the worker passes to
  \<^verbatim>\<open>process_all_frames_with_text_data\<close> the value \<open>t\<close> and no other (it makes the
  call when the load of the bytes succeeds).
\<close>

theorem caption_spec_crosses_untouched:
  assumes "currentFile st = Some f" and "\<not> isProcessing st"
    and "store st (gifProcessor st) = Some p"
    and "prepare_text_overlay eng p (export_args st) = Inr t"
    and "w_gifProcessor w \<noteq> None \<or> ir = None"
  shows "outbox (click_finish None (click_begin eng st)) = outbox st @ [export_request f t] \<and>
         textData (req_data (export_request f t)) = t \<and>
         batch_args (drop (length (w_calls w))
                       (w_calls (snd (onmessage eng ir w (export_request f t))))) =
           (if fst (process_gif eng (file_bytes f)
                      (case w_gifProcessor w of Some q \<Rightarrow> q | None \<Rightarrow> new_GifProcessor eng)) = None
            then [t] else [])"
  using click_posts(2)[OF assms(1-4)]
    onmessage_batch_args[where m = "export_request f t" and w = w and ir = ir and eng = eng,
      OF _ assms(5)]
  by (simp add: export_request_def)

theorem caption_spec_crosses_untouched_witness:
  "currentFile demo_page = Some demo_file \<and> \<not> isProcessing demo_page \<and>
   store demo_page (gifProcessor demo_page) = Some ([], 0) \<and>
   prepare_text_overlay demo_engine ([], 0) (export_args demo_page) = Inr 2 \<and>
   outbox (click_finish None (click_begin demo_engine demo_page)) = [export_request demo_file 2] \<and>
   batch_args (w_calls (snd (onmessage demo_engine None worker0 (export_request demo_file 2)))) = [2]"
proof -
  have h: "currentFile demo_page = Some demo_file" "\<not> isProcessing demo_page"
    "store demo_page (gifProcessor demo_page) = Some ([], 0)"
    "prepare_text_overlay demo_engine ([], 0) (export_args demo_page) = Inr 2"
    "outbox demo_page = []"
    by (simp_all add: demo_page_def page0_def new_object_def demo_engine_def export_args_def Let_def)
  have w: "w_gifProcessor (worker0 :: (bytes \<times> nat, 8 word) worker) \<noteq> None \<or> (None :: exn option) = None"
    by simp
  have g: "fst (process_gif demo_engine (file_bytes demo_file) (new_GifProcessor demo_engine)) = None"
    by (simp add: demo_engine_def demo_file_def)
  from caption_spec_crosses_untouched[OF h(1-4) w] h g show ?thesis
    by (simp add: worker0_def)
qed

text \<open>
  Claim C9. The batch pipeline runs in the worker, the preview on the page. In every state
  the two threads reach, the page has made no call of
  \<^verbatim>\<open>process_all_frames_with_text_data\<close>, and each such call the worker has made was for
  a request the page posted to it. From any such state in which a file is loaded and no
  export is under way, a click whose \<^verbatim>\<open>prepare_text_overlay\<close> returns \<open>t\<close> creates
  the Worker and posts it the request for the file and \<open>t\<close>, sets \<^verbatim>\<open>isProcessing\<close>
  and leaves the requested animation frames in place; the delivery of the request leaves
  the page as it was, and in it the worker, initialising itself if it has to, loads the
  bytes and calls \<^verbatim>\<open>process_all_frames_with_text_data\<close> on \<open>t\<close> (the load
  succeeding). Meanwhile a tick of either callback does the same whether or not
  \<^verbatim>\<open>isProcessing\<close> is set: one whose frame delay has elapsed draws the current frame
  and moves the cursor of the preview processor.
\<close>

theorem batch_runs_in_worker:
  "(let s = run eng evs (system0 eng);
        s1 = run eng [Click, Click_read None] s;
        s2 = step eng (Deliver_to_worker ir) s1
    in batch_calls (sys_page s) = [] \<and>
       set (batch_args (w_calls (sys_worker s))) \<subseteq> set (requested s) \<and>
       (currentFile (sys_page s) = Some f \<and> \<not> isProcessing (sys_page s) \<and>
        store (sys_page s) (gifProcessor (sys_page s)) = Some p \<and>
        prepare_text_overlay eng p (export_args (sys_page s)) = Inr t \<and>
        (w_gifProcessor (sys_worker s) \<noteq> None \<or> ir = None) \<and>
        fst (process_gif eng (file_bytes f)
               (case w_gifProcessor (sys_worker s) of Some q \<Rightarrow> q
                | None \<Rightarrow> new_GifProcessor eng)) = None \<longrightarrow>
          worker (sys_page s1) \<and>
          outbox (sys_page s1) = outbox (sys_page s) @ [export_request f t] \<and>
          isProcessing (sys_page s1) \<and>
          raf_queue (sys_page s1) = raf_queue (sys_page s) \<and>
          sys_page s2 = sys_page s1 \<and>
          batch_calls (sys_page s2) = [] \<and>
          w_calls (sys_worker s2) =
            w_calls (sys_worker s) @
            (if w_gifProcessor (sys_worker s) = None then [Call_init, Call_new] else []) @
            [Call_process_gif (file_bytes f), Call_process_all_frames t])) \<and>
   (pending st = None \<and> pending (click_begin eng st) \<noteq> None \<longrightarrow>
      worker (click_begin eng st) \<and> raf_queue (click_begin eng st) = raf_queue st) \<and>
   (worker st \<longrightarrow> raf_queue (click_finish None st) = raf_queue st) \<and>
   animate eng ts (st\<lparr>isProcessing := True\<rparr>) = exporting True (animate eng ts st) \<and>
   animateProcessed eng ts (st\<lparr>isProcessing := True\<rparr>) = exporting True (animateProcessed eng ts st) \<and>
   (delay_elapsed eng (gifProcessor st) (lastFrameTime st) ts st \<and> fst (animate eng ts st) = None \<longrightarrow>
      (gifProcessor st, Call_render_current_frame) \<in> set (new_calls st (snd (animate eng ts st))) \<and>
      (gifProcessor st, Call_next_frame) \<in> set (new_calls st (snd (animate eng ts st))))"
proof -
  define s where "s = run eng evs (system0 eng)"
  have ch: "channels_ok s" unfolding s_def by (rule channels_ok_run) (rule channels_ok_system0)
  have bo: "batch_ok s" unfolding s_def by (rule batch_ok_run) (rule batch_ok_system0)
  have bo2: "batch_ok (run eng [Click, Click_read None, Deliver_to_worker ir] s)"
    using bo by (rule batch_ok_run)
  have a: "batch_calls (sys_page s) = []"
    "set (batch_args (w_calls (sys_worker s))) \<subseteq> set (requested s)"
    using bo by (simp_all add: batch_ok_def)
  have b: "worker (sys_page (run eng [Click, Click_read None] s)) \<and>
          outbox (sys_page (run eng [Click, Click_read None] s)) =
            outbox (sys_page s) @ [export_request f t] \<and>
          isProcessing (sys_page (run eng [Click, Click_read None] s)) \<and>
          raf_queue (sys_page (run eng [Click, Click_read None] s)) = raf_queue (sys_page s) \<and>
          sys_page (step eng (Deliver_to_worker ir) (run eng [Click, Click_read None] s)) =
            sys_page (run eng [Click, Click_read None] s) \<and>
          batch_calls (sys_page (step eng (Deliver_to_worker ir)
                                   (run eng [Click, Click_read None] s))) = [] \<and>
          w_calls (sys_worker (step eng (Deliver_to_worker ir) (run eng [Click, Click_read None] s))) =
            w_calls (sys_worker s) @
            (if w_gifProcessor (sys_worker s) = None then [Call_init, Call_new] else []) @
            [Call_process_gif (file_bytes f), Call_process_all_frames t]"
    if h: "currentFile (sys_page s) = Some f" "\<not> isProcessing (sys_page s)"
      "store (sys_page s) (gifProcessor (sys_page s)) = Some p"
      "prepare_text_overlay eng p (export_args (sys_page s)) = Inr t"
      "w_gifProcessor (sys_worker s) \<noteq> None \<or> ir = None"
      "fst (process_gif eng (file_bytes f)
               (case w_gifProcessor (sys_worker s) of Some q \<Rightarrow> q
                | None \<Rightarrow> new_GifProcessor eng)) = None"
  proof -
    note e = export_reaches_worker[OF ch h]
    have r: "step eng (Deliver_to_worker ir) (run eng [Click, Click_read None] s) =
             run eng [Click, Click_read None, Deliver_to_worker ir] s" by simp
    show ?thesis unfolding r using e bo2 by (simp add: batch_ok_def)
  qed
  have c: "pending st = None \<and> pending (click_begin eng st) \<noteq> None \<longrightarrow>
      worker (click_begin eng st) \<and> raf_queue (click_begin eng st) = raf_queue st"
    by (auto simp: click_keeps_frames)
       (auto simp: click_begin_def initWorker_def call_query_def log_call_def Let_def click_catch_def
        split: option.splits sum.splits if_splits)
  have d: "worker st \<longrightarrow> raf_queue (click_finish None st) = raf_queue st"
    by (auto simp: click_finish_def split: option.splits)
  have e: "animate eng ts (st\<lparr>isProcessing := True\<rparr>) = exporting True (animate eng ts st)"
    "animateProcessed eng ts (st\<lparr>isProcessing := True\<rparr>) = exporting True (animateProcessed eng ts st)"
    by (rule animate_exporting, rule animateProcessed_exporting)
  have g: "delay_elapsed eng (gifProcessor st) (lastFrameTime st) ts st \<and> fst (animate eng ts st) = None \<longrightarrow>
      (gifProcessor st, Call_render_current_frame) \<in> set (new_calls st (snd (animate eng ts st))) \<and>
      (gifProcessor st, Call_next_frame) \<in> set (new_calls st (snd (animate eng ts st)))"
    using animate_advance_calls[of eng st ts] by blast
  from a b c d e g show ?thesis unfolding Let_def s_def[symmetric] by blast
qed

theorem batch_runs_in_worker_witness:
  "currentFile (sys_page (run demo_engine [Choose_file demo_file] (system0 demo_engine)))
     = Some demo_file \<and>
   \<not> isProcessing (sys_page (run demo_engine [Choose_file demo_file] (system0 demo_engine))) \<and>
   worker (sys_page (run demo_engine [Choose_file demo_file, Click, Click_read None]
                       (system0 demo_engine))) \<and>
   outbox (sys_page (run demo_engine [Choose_file demo_file, Click, Click_read None]
                       (system0 demo_engine))) = [export_request demo_file 0] \<and>
   w_calls (sys_worker (run demo_engine
              [Choose_file demo_file, Click, Click_read None, Deliver_to_worker None]
              (system0 demo_engine)))
     = [Call_init, Call_new, Call_process_gif [71, 73, 70], Call_process_all_frames 0] \<and>
   delay_elapsed demo_engine (gifProcessor demo_page) (lastFrameTime demo_page) 1200
     (demo_page\<lparr>isProcessing := True\<rparr>) \<and>
   fst (animate demo_engine 1200 (demo_page\<lparr>isProcessing := True\<rparr>)) = None \<and>
   (gifProcessor demo_page, Call_next_frame)
     \<in> set (new_calls (demo_page\<lparr>isProcessing := True\<rparr>)
               (snd (animate demo_engine 1200 (demo_page\<lparr>isProcessing := True\<rparr>))))"
proof -
  let ?s = "run demo_engine [Choose_file demo_file] (system0 demo_engine)"
  have h: "currentFile (sys_page ?s) = Some demo_file" "\<not> isProcessing (sys_page ?s)"
    "store (sys_page ?s) (gifProcessor (sys_page ?s)) = Some ([], 0)"
    "prepare_text_overlay demo_engine ([], 0) (export_args (sys_page ?s)) = Inr 0"
    "w_gifProcessor (sys_worker ?s) = None"
    "fst (process_gif demo_engine (file_bytes demo_file) (new_GifProcessor demo_engine)) = None"
    "outbox (sys_page ?s) = []" "w_calls (sys_worker ?s) = []"
    "file_bytes demo_file = [71, 73, 70]"
    by (simp_all add: model_defs Let_def)
  have k: "delay_elapsed demo_engine (gifProcessor demo_page) (lastFrameTime demo_page) 1200
             (demo_page\<lparr>isProcessing := True\<rparr>)"
    "gifProcessor (demo_page\<lparr>isProcessing := True\<rparr>) = gifProcessor demo_page"
    "lastFrameTime (demo_page\<lparr>isProcessing := True\<rparr>) = lastFrameTime demo_page"
    by (simp_all add: delay_elapsed_def demo_page_def page0_def new_object_def demo_engine_def Let_def)
  have n: "fst (animate demo_engine 1200 (demo_page\<lparr>isProcessing := True\<rparr>)) = None"
    by (simp add: animate_def advance_preview_def render_preview_def updatePreview_def
        call_query_def call_method_def log_call_def schedule.simps requestAnimationFrame_def
        demo_page_def page0_def new_object_def demo_engine_def blank_canvas_def Let_def)
  have r: "step demo_engine (Deliver_to_worker None)
             (run demo_engine [Choose_file demo_file, Click, Click_read None] (system0 demo_engine)) =
           run demo_engine [Choose_file demo_file, Click, Click_read None, Deliver_to_worker None]
             (system0 demo_engine)"
    "run demo_engine [Click, Click_read None] ?s =
       run demo_engine [Choose_file demo_file, Click, Click_read None] (system0 demo_engine)"
    by simp_all
  show ?thesis
    using batch_runs_in_worker[where eng = demo_engine and evs = "[Choose_file demo_file]"
        and ir = None and f = demo_file and p = "([], 0)" and t = 0
        and st = "demo_page\<lparr>isProcessing := True\<rparr>" and ts = 1200]
      h k n
    unfolding Let_def r
    by (simp del: run.simps step.simps)
qed

subsection \<open>The LZW codec\<close>

declare dec.simps [simp del] bytes_of_bits.simps [simp del] blocks.simps [simp del]

lemma length_bits_of [simp]: "length (bits_of n c) = n"
  by (induction n arbitrary: c) simp_all

lemma value_of_bits_of: "c < 2 ^ n \<Longrightarrow> value_of (bits_of n c) = c"
proof (induction n arbitrary: c)
  case 0
  then show ?case by simp
next
  case (Suc n)
  then have "c div 2 < 2 ^ n" by simp
  then have "value_of (bits_of n (c div 2)) = c div 2" by (rule Suc.IH)
  then show ?case by simp
qed

lemma value_of_bound: "value_of bs < 2 ^ length bs"
  by (induction bs) auto

lemma bits_of_value_of:
  "length bs \<le> n \<Longrightarrow> bits_of n (value_of bs) = bs @ replicate (n - length bs) False"
proof (induction bs arbitrary: n)
  case Nil
  show ?case by (induction n) simp_all
next
  case (Cons b bs)
  then obtain m where n: "n = Suc m" by (cases n) auto
  with Cons.prems have "length bs \<le> m" by simp
  from Cons.IH[OF this] n show ?case by (cases b) simp_all
qed

lemma index_of_nth: "x \<in> set xs \<Longrightarrow> index_of x xs < length xs \<and> xs ! index_of x xs = x"
  by (induction xs) auto

lemma index_of_le: "index_of x xs \<le> length xs"
  by (induction xs) auto

lemma pow_mono_d: "d + 1 \<le> width \<Longrightarrow> (2::nat) ^ (d + 1) \<le> 2 ^ width"
  by (rule power_increasing) simp_all

lemma synced_code:
  assumes d: "1 \<le> d" and s: "synced d te w td prev width"
  shows "code_of d te w < 2 ^ width"
    and "code_of d te w \<noteq> clear_code d"
    and "code_of d te w \<noteq> eoi_code d"
    and "entry d td prev (code_of d te w) = Some w"
    and "(if prev = [] \<or> first_code d + length td \<ge> 4096 then td else td @ [prev @ [hd w]]) = te"
proof -
  from s have w: "w \<noteq> []" and k: "length w = 1 \<or> w \<in> set te" and sym: "\<forall>x\<in>set w. x < 2 ^ d"
    and wd: "d + 1 \<le> width"
    and rel: "(prev = [] \<and> td = [] \<and> te = [] \<and> width = d + 1) \<or>
      (prev \<noteq> [] \<and> te = td @ [prev @ [hd w]] \<and> first_code d + length td < 2 ^ width)"
    and full: "first_code d + length te \<le> 4096"
    by (simp_all add: synced_def)
  have p: "(2::nat) ^ (d + 1) \<le> 2 ^ width" using wd by (rule pow_mono_d)
  show 5: "(if prev = [] \<or> first_code d + length td \<ge> 4096 then td else td @ [prev @ [hd w]]) = te"
    using rel full by auto
  show "code_of d te w < 2 ^ width" "code_of d te w \<noteq> clear_code d"
    "code_of d te w \<noteq> eoi_code d" "entry d td prev (code_of d te w) = Some w"
  proof -
    consider (single) k where "w = [k]" | (long) "length w \<ge> 2"
      using w by (cases w; cases "tl w") auto
    then have "code_of d te w < 2 ^ width \<and> code_of d te w \<noteq> clear_code d \<and>
      code_of d te w \<noteq> eoi_code d \<and> entry d td prev (code_of d te w) = Some w"
    proof cases
      case single
      with sym have "k < 2 ^ d" by simp
      with single p show ?thesis
        by (simp add: code_of_def clear_code_def eoi_code_def entry_def)
    next
      case long
      then have c: "code_of d te w = first_code d + index_of w te"
        by (cases w; cases "tl w") (auto simp: code_of_def)
      from long k have mem: "w \<in> set te" by auto
      with rel have B: "prev \<noteq> []" "te = td @ [prev @ [hd w]]" "first_code d + length td < 2 ^ width"
        by auto
      note i = index_of_nth[OF mem]
      have il: "index_of w te \<le> length td" using i B(2) by simp
      have e: "entry d td prev (first_code d + index_of w te) = Some w"
      proof (cases "index_of w te < length td")
        case True
        then have "td ! index_of w te = w" using i B(2) by (simp add: nth_append)
        with True show ?thesis by (simp add: entry_def first_code_def)
      next
        case False
        with il have eq: "index_of w te = length td" by simp
        with i B(2) have "w = prev @ [hd w]" by (metis nth_append_length)
        with B(1) have "hd w = hd prev" by (metis hd_append2)
        with \<open>w = prev @ [hd w]\<close> have "prev @ [hd prev] = w" by simp
        with eq B(1) show ?thesis by (simp add: entry_def first_code_def)
      qed
      from c e il B(3) show ?thesis
        by (simp add: first_code_def clear_code_def eoi_code_def)
    qed
    then show "code_of d te w < 2 ^ width" "code_of d te w \<noteq> clear_code d"
      "code_of d te w \<noteq> eoi_code d" "entry d td prev (code_of d te w) = Some w"
      by simp_all
  qed
qed

lemma dec_read:
  assumes "0 < width" and "c < 2 ^ width"
  shows "dec d table prev width (bits_of width c @ rest) =
     (if c = clear_code d then dec d [] [] (d + 1) rest
      else if c = eoi_code d then Some []
      else
        (case entry d table prev c of
           None \<Rightarrow> None
         | Some s \<Rightarrow>
             (let table' = (if prev = [] \<or> first_code d + length table \<ge> 4096 then table
                            else table @ [prev @ [hd s]])
              in map_option ((@) s) (dec d table' s (grow d (length table') width) rest))))"
  using assms
  by (subst dec.simps) (simp add: value_of_bits_of Let_def)

declare bits_of.simps [simp del]

lemma bits_of_codes_Cons [simp]:
  "bits_of_codes ((n, c) # cs) = bits_of n c @ bits_of_codes cs"
  "bits_of_codes [] = []"
  by (simp_all add: bits_of_codes_def)

lemma synced_width:
  assumes d: "1 \<le> d" and s: "synced d te w td prev width"
  shows "0 < width" and "d + 1 \<le> width" and "first_code d + length te \<le> 2 ^ width"
    and "clear_code d < 2 ^ width" and "eoi_code d < 2 ^ width"
proof -
  from s have wd: "d + 1 \<le> width"
    and rel: "(prev = [] \<and> td = [] \<and> te = [] \<and> width = d + 1) \<or>
      (prev \<noteq> [] \<and> te = td @ [prev @ [hd w]] \<and> first_code d + length td < 2 ^ width)"
    by (simp_all add: synced_def)
  show "0 < width" "d + 1 \<le> width" using wd by simp_all
  have p: "(2::nat) ^ (d + 1) \<le> 2 ^ width" using wd by (rule pow_mono_d)
  have two: "(2::nat) \<le> 2 ^ d" using d by (metis power_increasing one_le_numeral power_one_right)
  show "first_code d + length te \<le> 2 ^ width"
    using rel two by (auto simp: first_code_def)
  have "(2::nat) ^ d < 2 ^ (d + 1)" "(2::nat) ^ d + 1 < 2 ^ (d + 1)" using two by simp_all
  with p show "clear_code d < 2 ^ width" "eoi_code d < 2 ^ width"
    unfolding clear_code_def eoi_code_def by linarith+
qed

lemma grow_ge: "width \<le> grow d n width" "width \<le> 12 \<Longrightarrow> grow d n width \<le> 12"
  by (simp_all add: grow_def)

lemma synced_next:
  assumes d: "1 \<le> d" and s: "synced d te w td prev width"
    and k: "k < 2 ^ d" and room: "first_code d + length te < 4096"
  shows "synced d (te @ [w @ [k]]) [k] te w (grow d (length te) width)"
proof -
  from s have w: "w \<noteq> []" and wd: "d + 1 \<le> width" and w12: "width \<le> 12"
    by (simp_all add: synced_def)
  have le: "first_code d + length te \<le> 2 ^ width" using synced_width(3)[OF d s] .
  have lt: "first_code d + length te < 2 ^ grow d (length te) width"
  proof (cases "width < 12 \<and> first_code d + length te \<ge> 2 ^ width")
    case True
    with le have "first_code d + length te = 2 ^ width" by simp
    with True show ?thesis by (simp add: grow_def)
  next
    case False
    show ?thesis
    proof (cases "width < 12")
      case True
      with False show ?thesis by (simp add: grow_def)
    next
      case False
      with w12 have "width = 12" by simp
      with room show ?thesis by (simp add: grow_def)
    qed
  qed
  show ?thesis
    using w wd w12 k room lt grow_ge[of width d "length te"]
    by (auto simp: synced_def)
qed

lemma synced_extend:
  assumes s: "synced d te w td prev width" and k: "k < 2 ^ d" and mem: "w @ [k] \<in> set te"
  shows "synced d te (w @ [k]) td prev width"
  using assms by (auto simp: synced_def)

lemma synced_fresh:
  assumes "1 \<le> d" "d \<le> 8" "k < 2 ^ d"
  shows "synced d [] [k] [] [] (d + 1)"
proof -
  have "(2::nat) ^ d \<le> 2 ^ 8" using assms(2) by (rule power_increasing) simp
  then show ?thesis using assms by (simp add: synced_def first_code_def)
qed

lemma dec_enc:
  assumes d: "1 \<le> d" "d \<le> 8"
    and s: "synced d te w td prev width"
    and ks: "\<forall>x\<in>set ks. x < 2 ^ d"
  shows "dec d td prev width (bits_of_codes (enc d te w width ks) @ pad) = Some (w @ ks)"
  using s ks
proof (induction ks arbitrary: te w td prev width)
  case Nil
  note s = Nil.prems(1)
  from s have w: "w \<noteq> []" by (simp add: synced_def)
  note c = synced_code[OF d(1) s] and wd = synced_width[OF d(1) s]
  have e: "eoi_code d < 2 ^ grow d (length te) width"
    using wd(5) grow_ge(1)[of width d "length te"]
    by (meson less_le_trans one_le_numeral power_increasing)
  have g: "0 < grow d (length te) width" using wd(1) grow_ge(1)[of width d "length te"] by simp
  have c2: "eoi_code d \<noteq> clear_code d" by (simp add: eoi_code_def clear_code_def)
  show ?case
    using w c wd(1)
    by (simp add: dec_read[OF wd(1) c(1)] dec_read[OF g e] c2)
next
  case (Cons k ks)
  note s = Cons.prems(1)
  from Cons.prems(2) have k: "k < 2 ^ d" and ks: "\<forall>x\<in>set ks. x < 2 ^ d" by simp_all
  from s have w: "w \<noteq> []" by (simp add: synced_def)
  show ?case
  proof (cases "w @ [k] \<in> set te")
    case True
    from Cons.IH[OF synced_extend[OF s k True] ks] True w show ?thesis by simp
  next
    case False
    note c = synced_code[OF d(1) s] and wd = synced_width[OF d(1) s]
    show ?thesis
    proof (cases "first_code d + length te < 4096")
      case True
      from Cons.IH[OF synced_next[OF d(1) s k True] ks] False True w c
      show ?thesis
        by (simp add: dec_read[OF wd(1) c(1)])
    next
      case full: False
      have cl: "clear_code d < 2 ^ grow d (length te) width"
        using wd(4) grow_ge(1)[of width d "length te"]
        by (meson less_le_trans one_le_numeral power_increasing)
      have g: "0 < grow d (length te) width" using wd(1) grow_ge(1)[of width d "length te"] by simp
      from Cons.IH[OF synced_fresh[OF d k] ks] False full w c
      show ?thesis
        by (simp add: dec_read[OF wd(1) c(1)] dec_read[OF g cl])
    qed
  qed
qed

lemma dec_lzw_codes:
  assumes d: "1 \<le> d" "d \<le> 8" and ks: "\<forall>x\<in>set seq. x < 2 ^ d"
  shows "dec d [] [] (d + 1) (bits_of_codes (lzw_codes d seq) @ pad) = Some seq"
proof -
  have two: "(2::nat) \<le> 2 ^ d" using d(1) by (metis power_increasing one_le_numeral power_one_right)
  then have cl: "clear_code d < 2 ^ Suc d" and e: "eoi_code d < 2 ^ Suc d"
    by (simp_all add: clear_code_def eoi_code_def)
  have c2: "eoi_code d \<noteq> clear_code d" by (simp add: eoi_code_def clear_code_def)
  have z: "0 < Suc d" by simp
  show ?thesis
  proof (cases seq)
    case Nil
    then show ?thesis by (simp add: lzw_codes_def dec_read[OF z cl] dec_read[OF z e] c2)
  next
    case (Cons k ks')
    with ks have k: "k < 2 ^ d" and ks': "\<forall>x\<in>set ks'. x < 2 ^ d" by simp_all
    from dec_enc[OF d synced_fresh[OF d k] ks', of pad] Cons show ?thesis
      by (simp add: lzw_codes_def dec_read[OF z cl])
  qed
qed

lemma depth_of_bounds: "1 \<le> depth_of N" "depth_of N \<le> 8" "N \<le> 256 \<Longrightarrow> N \<le> 2 ^ depth_of N"
  by (simp_all add: depth_of_def)

lemma bytes_of_bits_bound: "\<forall>b\<in>set (bytes_of_bits bits). b < 256"
proof (induction bits rule: bytes_of_bits.induct)
  case (1 bits)
  have "value_of (take 8 bits) < 2 ^ length (take 8 bits)" by (rule value_of_bound)
  also have "\<dots> \<le> 2 ^ 8" by (rule power_increasing) simp_all
  finally have "value_of (take 8 bits) < 256" by simp
  with 1 show ?case by (subst bytes_of_bits.simps) auto
qed

lemma bits_of_bytes_of_bits: "\<exists>pad. bits_of_bytes (bytes_of_bits bits) = bits @ pad"
proof (induction bits rule: bytes_of_bits.induct)
  case (1 bits)
  show ?case
  proof (cases "bits = []")
    case True
    then show ?thesis by (subst bytes_of_bits.simps) (simp add: bits_of_bytes_def)
  next
    case False
    from 1[OF False] obtain pad where
      pad: "bits_of_bytes (bytes_of_bits (drop 8 bits)) = drop 8 bits @ pad" by blast
    have h: "bits_of 8 (value_of (take 8 bits)) = take 8 bits @ replicate (8 - length (take 8 bits)) False"
      by (rule bits_of_value_of) simp
    show ?thesis
    proof (cases "length bits \<ge> 8")
      case True
      then have "bits_of 8 (value_of (take 8 bits)) = take 8 bits" using h by simp
      with pad False have "bits_of_bytes (bytes_of_bits bits) = take 8 bits @ drop 8 bits @ pad"
        by (subst bytes_of_bits.simps) (simp add: bits_of_bytes_def)
      then show ?thesis by (metis append_assoc append_take_drop_id)
    next
      case short: False
      then have d: "drop 8 bits = []" "take 8 bits = bits" by simp_all
      have "bytes_of_bits [] = []" by (subst bytes_of_bits.simps) simp
      with d False h have "bits_of_bytes (bytes_of_bits bits) = bits @ replicate (8 - length bits) False"
        by (subst bytes_of_bits.simps) (simp add: bits_of_bytes_def)
      then show ?thesis by blast
    qed
  qed
qed

lemma blocks_bound: "\<forall>b\<in>set bs. b < 256 \<Longrightarrow> \<forall>b\<in>set (blocks bs). b < 256"
proof (induction bs rule: blocks.induct)
  case (1 bs)
  show ?case
  proof (cases "bs = []")
    case True
    then show ?thesis by (subst blocks.simps) simp
  next
    case False
    have "\<forall>b\<in>set (drop 255 bs). b < 256" using "1.prems" by (meson in_set_dropD)
    from "1.IH"[OF False this] "1.prems" False show ?thesis
      by (subst blocks.simps) (auto dest: in_set_takeD)
  qed
qed

lemma unblocks_blocks: "unblocks (blocks bs) = Some bs"
proof (induction bs rule: blocks.induct)
  case (1 bs)
  show ?case
  proof (cases "bs = []")
    case True
    then show ?thesis by (subst blocks.simps) simp
  next
    case False
    from "1.IH"[OF False] False show ?thesis
      by (subst blocks.simps) (simp add: min_def)
  qed
qed

lemma unat_of_nat_bytes:
  "\<forall>b\<in>set xs. b < 256 \<Longrightarrow> map unat (map of_nat xs :: 8 word list) = xs"
  by (induction xs) (simp_all add: unat_of_nat)

lemma dec_start_codes:
  assumes d: "1 \<le> d" "d \<le> 8" and ks: "\<forall>x\<in>set seq. x < 2 ^ d"
  shows "dec_start d (bits_of_codes (lzw_codes d seq) @ pad) = Some seq"
proof -
  have two: "(2::nat) \<le> 2 ^ d" using d(1) by (metis power_increasing one_le_numeral power_one_right)
  then have cl: "clear_code d < 2 ^ Suc d" by (simp add: clear_code_def)
  have z: "0 < Suc d" by simp
  have e: "bits_of_codes (lzw_codes d seq) @ pad =
             bits_of (Suc d) (clear_code d) @ (bits_of_codes (enc d [] [] (Suc d) seq) @ pad)"
    by (simp add: lzw_codes_def)
  have "dec d [] [] (Suc d) (bits_of_codes (enc d [] [] (Suc d) seq) @ pad) = Some seq"
    using dec_lzw_codes[OF d ks, of pad] dec_read[OF z cl, of d "[]" "[]"] e by simp
  then show ?thesis
    unfolding dec_start_def e by (simp add: value_of_bits_of[OF cl])
qed

text \<open>
  Claim C5. For a sequence over \<open>N\<close> symbols, \<open>N\<close> at most 256 (every value below
  \<open>N\<close>, hence below two to the code width), decoding the encoder's output gives the
  sequence back: \<open>lzw_decode (lzw_encode seq N) = Some seq\<close>.
\<close>

theorem lzw_round_trip:
  assumes "N \<le> 256" and "\<forall>x\<in>set seq. x < N"
  shows "lzw_decode (lzw_encode seq N) = Some seq"
proof -
  let ?d = "depth_of N"
  let ?data = "bytes_of_bits (bits_of_codes (lzw_codes ?d seq))"
  note b = depth_of_bounds[of N]
  have sym: "\<forall>x\<in>set seq. x < 2 ^ ?d" using assms b(3) by fastforce
  have bound: "\<forall>b\<in>set (?d # blocks ?data). b < 256"
    using blocks_bound[OF bytes_of_bits_bound] b(2) by simp
  have u: "map unat (lzw_encode seq N) = ?d # blocks ?data"
    unfolding lzw_encode_def Let_def by (rule unat_of_nat_bytes[OF bound])
  obtain pad where pad: "bits_of_bytes ?data = bits_of_codes (lzw_codes ?d seq) @ pad"
    using bits_of_bytes_of_bits by blast
  show ?thesis
    using b(1,2) dec_start_codes[OF b(1,2) sym, of pad]
    by (simp add: lzw_decode_def u unblocks_blocks pad)
qed

theorem lzw_round_trip_witness:
  "lzw_decode (lzw_encode [1, 1, 1, 1, 1, 2, 2, 2, 2, 2] 4) = Some [1, 1, 1, 1, 1, 2, 2, 2, 2, 2]"
  using lzw_round_trip[of 4 "[1, 1, 1, 1, 1, 2, 2, 2, 2, 2]"] by simp

text \<open>
  The encoder on a 10 by 10 image of three colours out of four, row by row: the colour
  depth, one sub-block of 22 bytes, the terminator. And a value that is not one of the
  \<open>N\<close> symbols is not covered: the value 4, with four symbols, is read back as the
  Clear code.
\<close>

lemma lzw_encode_sample:
  "map unat (lzw_encode
       [1, 1, 1, 1, 1, 2, 2, 2, 2, 2,
        1, 1, 1, 1, 1, 2, 2, 2, 2, 2,
        1, 1, 1, 1, 1, 2, 2, 2, 2, 2,
        1, 1, 1, 0, 0, 0, 0, 2, 2, 2,
        1, 1, 1, 0, 0, 0, 0, 2, 2, 2,
        2, 2, 2, 0, 0, 0, 0, 1, 1, 1,
        2, 2, 2, 0, 0, 0, 0, 1, 1, 1,
        2, 2, 2, 2, 2, 1, 1, 1, 1, 1,
        2, 2, 2, 2, 2, 1, 1, 1, 1, 1,
        2, 2, 2, 2, 2, 1, 1, 1, 1, 1] 4) =
     [2, 22, 140, 45, 153, 135, 42, 28, 220, 51, 160, 2, 117, 236, 149, 250, 168, 222, 96, 140,
      4, 145, 76, 1, 0]"
  by code_simp

lemma lzw_symbol_out_of_range: "lzw_decode (lzw_encode [4, 1] 4) = Some [1]"
  by code_simp


end
